theory Spec2Isabelle
  imports Complex_Main "HOL-Library.Word"
begin

unbundle bit_operations_syntax

section \<open>Tile atlas rasterizer (tiles.c): constants and data\<close>

text \<open>
  The development follows the SDL tile renderer: the newer variant of the file
  (prepareTile with an explicit surface and tile size, four or one textures) is the main
  model; where the older variant (getTexture, 64 x 64 static accumulator) differs and a
  property depends on it, the older function is modelled beside it under the suffix
  \<open>_old\<close>.

  C \<open>int\<close> values are \<open>int\<close> (no computation here comes near the 32-bit range),
  \<open>uint64_t\<close>, \<open>uint32_t\<close> and \<open>int8_t\<close> are words, and pixel buffers are
  functions from the flat pixel index to the pixel. \<open>double\<close> arithmetic is written in
  exact real arithmetic.
\<close>

definition PNG_WIDTH :: int where "PNG_WIDTH = 2048"
definition PNG_HEIGHT :: int where "PNG_HEIGHT = 5568"
definition TILE_WIDTH :: int where "TILE_WIDTH = 128"
definition TILE_HEIGHT :: int where "TILE_HEIGHT = 232"
definition TILE_ROWS :: int where "TILE_ROWS = 24"
definition TILE_COLS :: int where "TILE_COLS = 16"
definition TEXT_X_HEIGHT :: int where "TEXT_X_HEIGHT = 100"
definition TEXT_BASELINE :: int where "TEXT_BASELINE = 46"
definition MAX_TILE_SIZE :: int where "MAX_TILE_SIZE = 64"

text \<open>C integer division truncates towards zero.\<close>

definition c_div :: "int \<Rightarrow> int \<Rightarrow> int" where
  "c_div a b = sgn a * sgn b * (\<bar>a\<bar> div \<bar>b\<bar>)"

text \<open>C \<open>round\<close> rounds half away from zero; a conversion to \<open>int\<close> truncates.\<close>

definition c_round :: "real \<Rightarrow> int" where
  "c_round x = (if 0 \<le> x then \<lfloor>x + 1 / 2\<rfloor> else - \<lfloor>- x + 1 / 2\<rfloor>)"

definition c_trunc :: "real \<Rightarrow> int" where
  "c_trunc x = (if 0 \<le> x then \<lfloor>x\<rfloor> else \<lceil>x\<rceil>)"

text \<open>
  \<open>for (int i = a; i < n; i += step) s = body i s\<close>: every loop of the file without
  \<open>break\<close> or \<open>return\<close> has this shape.
\<close>

function for_loop :: "int \<Rightarrow> int \<Rightarrow> int \<Rightarrow> (int \<Rightarrow> 's \<Rightarrow> 's) \<Rightarrow> 's \<Rightarrow> 's" where
  "for_loop i n step body s =
     (if i < n \<and> 0 < step then for_loop (i + step) n step body (body i s) else s)"
  by pat_completeness auto
termination
  by (relation "measure (\<lambda>(i, n, step, body, s). nat (n - i))") auto

declare for_loop.simps [simp del]

subsection \<open>The source atlas\<close>

text \<open>
  \<open>TilesPNG->pixels\<close>: 32-bit pixels, row-major, \<open>PNG_WIDTH\<close> to a row; the low byte
  is the luminance sample.
\<close>

type_synonym png = "int \<Rightarrow> 32 word"

definition srcPixel :: "png \<Rightarrow> int \<Rightarrow> int \<Rightarrow> int \<Rightarrow> int \<Rightarrow> 32 word" where
  "srcPixel pixels row column x y =
     pixels ((x + column * TILE_WIDTH) + (y + row * TILE_HEIGHT) * PNG_WIDTH) AND 0xff"

text \<open>
  getPadding: the inner loop over \<open>x\<close> returns from the function as soon as row
  \<open>padding\<close> or row \<open>TILE_HEIGHT - padding - 1\<close> has a pixel with a nonzero sample.
\<close>

definition paddingRowsLit :: "png \<Rightarrow> int \<Rightarrow> int \<Rightarrow> int \<Rightarrow> bool" where
  "paddingRowsLit pixels row column padding =
     list_ex (\<lambda>x. srcPixel pixels row column x padding \<noteq> 0
                 \<or> srcPixel pixels row column x (TILE_HEIGHT - padding - 1) \<noteq> 0)
       [0..TILE_WIDTH - 1]"

function getPadding_from :: "png \<Rightarrow> int \<Rightarrow> int \<Rightarrow> int \<Rightarrow> int" where
  "getPadding_from pixels row column padding =
     (if padding < TILE_HEIGHT div 4
      then (if paddingRowsLit pixels row column padding then padding
            else getPadding_from pixels row column (padding + 1))
      else padding)"
  by pat_completeness auto
termination
  by (relation "measure (\<lambda>(pixels, row, column, padding). nat (TILE_HEIGHT div 4 - padding))") auto

declare getPadding_from.simps [simp del]

definition getPadding :: "png \<Rightarrow> int \<Rightarrow> int \<Rightarrow> int" where
  "getPadding pixels row column = getPadding_from pixels row column 0"

text \<open>isTileEmpty: false as soon as one pixel of the cell has a nonzero sample.\<close>

definition isTileEmpty :: "png \<Rightarrow> int \<Rightarrow> int \<Rightarrow> bool" where
  "isTileEmpty pixels row column =
     (\<not> list_ex (\<lambda>y. list_ex (\<lambda>x. srcPixel pixels row column x y \<noteq> 0) [0..TILE_WIDTH - 1])
          [0..TILE_HEIGHT - 1])"

subsection \<open>Texture variants\<close>

text \<open>
  loadTiles builds texture \<open>i\<close> with tiles of
  \<open>baseTileWidth + (i == 1 || i == 3 ? 1 : 0)\<close> by
  \<open>baseTileHeight + (i == 2 || i == 3 ? 1 : 0)\<close> pixels.
\<close>

definition textureTileWidth :: "int \<Rightarrow> int \<Rightarrow> int" where
  "textureTileWidth baseTileWidth i = baseTileWidth + (if i = 1 \<or> i = 3 then 1 else 0)"

definition textureTileHeight :: "int \<Rightarrow> int \<Rightarrow> int" where
  "textureTileHeight baseTileHeight i = baseTileHeight + (if i = 2 \<or> i = 3 then 1 else 0)"

text \<open>getTexture of the older variant: the index into \<open>Textures\<close>.\<close>

definition getTexture_old :: "int \<Rightarrow> int \<Rightarrow> int \<Rightarrow> int \<Rightarrow> int" where
  "getTexture_old baseTileWidth baseTileHeight tileWidth tileHeight =
     (if tileWidth > baseTileWidth then 1 else 0) + (if tileHeight > baseTileHeight then 2 else 0)"

text \<open>
  updateScreen of the newer variant: the texture index and the source rectangle size
  \<open>(src.w, src.h)\<close> used for a screen cell of \<open>tileWidth\<close> by \<open>tileHeight\<close> pixels.
\<close>

definition selectTexture :: "int \<Rightarrow> int \<Rightarrow> int \<Rightarrow> int \<Rightarrow> int \<Rightarrow> int \<times> int \<times> int" where
  "selectTexture numTextures baseTileWidth baseTileHeight tileWidth tileHeight =
     (if numTextures = 4
      then ((if tileWidth > baseTileWidth then 1 else 0) + (if tileHeight > baseTileHeight then 2 else 0),
            tileWidth, tileHeight)
      else (0, baseTileWidth, baseTileHeight))"

text \<open>
  The screen grid of updateScreen: cell \<open>x\<close> of \<open>n\<close> cells spread over \<open>output\<close>
  pixels (\<open>n\<close> is \<open>COLS\<close> or \<open>ROWS\<close> of the game's header, \<open>output\<close> the renderer's
  output size).
\<close>

definition cellSize :: "int \<Rightarrow> int \<Rightarrow> int \<Rightarrow> int" where
  "cellSize output n x = c_div ((x + 1) * output) n - c_div (x * output) n"

text \<open>
  loadTiles of the newer variant: the choice of the base tile size and of the number of
  textures from the output size.
\<close>

definition chooseTileSize :: "int \<Rightarrow> int \<Rightarrow> int \<Rightarrow> int \<Rightarrow> int \<times> int \<times> int" where
  "chooseTileSize COLS ROWS outputWidth outputHeight =
     (let newBaseTileWidth = c_div outputWidth COLS;
          newBaseTileHeight = c_div outputHeight ROWS;
          tileAspectRatio = real_of_int (outputWidth * ROWS) / real_of_int (outputHeight * COLS);
          (newBaseTileWidth, newBaseTileHeight) =
             (if newBaseTileHeight \<ge> MAX_TILE_SIZE
              then (c_round (real_of_int TILE_HEIGHT * tileAspectRatio), TILE_HEIGHT)
              else (newBaseTileWidth, newBaseTileHeight));
          (newBaseTileWidth, newBaseTileHeight) =
             (if newBaseTileWidth \<ge> MAX_TILE_SIZE
              then (TILE_WIDTH, c_round (real_of_int TILE_WIDTH / tileAspectRatio))
              else (newBaseTileWidth, newBaseTileHeight));
          newBaseTileWidth = (if newBaseTileWidth = 0 then 1 else newBaseTileWidth);
          newBaseTileHeight = (if newBaseTileHeight = 0 then 1 else newBaseTileHeight);
          numTextures = (if newBaseTileWidth \<ge> MAX_TILE_SIZE \<or> newBaseTileHeight \<ge> MAX_TILE_SIZE
                         then 1 else 4)
      in (newBaseTileWidth, newBaseTileHeight, numTextures))"

subsection \<open>The shift table and its cache file\<close>

text \<open>
  \<open>int8_t tileShifts[TILE_ROWS][TILE_COLS][2][MAX_TILE_SIZE][3]\<close> as the bytes it
  occupies, in the row-major order of the C array.
\<close>

type_synonym shift_table = "8 word list"

definition sizeof_tileShifts :: nat where
  "sizeof_tileShifts = 24 * 16 * 2 * 64 * 3"

definition shiftsOffset :: "int \<Rightarrow> int \<Rightarrow> int \<Rightarrow> int \<Rightarrow> nat" where
  "shiftsOffset row column axis sz =
     nat ((((row * TILE_COLS + column) * 2 + axis) * MAX_TILE_SIZE + sz) * 3)"

text \<open>
  \<open>fwrite(tileShifts, 1, sizeof(tileShifts), file)\<close> on a fresh file and
  \<open>fread(tileShifts, 1, sizeof(tileShifts), file)\<close>: the file is a byte sequence;
  reading stores as many bytes as the file has, at most the requested number.
\<close>

definition fwrite_bytes :: "8 word list \<Rightarrow> nat \<Rightarrow> 8 word list" where
  "fwrite_bytes buf n = take n buf"

definition fread_bytes :: "8 word list \<Rightarrow> nat \<Rightarrow> 8 word list \<Rightarrow> 8 word list" where
  "fread_bytes buf n file = (let k = min n (length file) in take k file @ drop k buf)"

subsection \<open>Global state of the renderer\<close>

text \<open>
  How each tile is processed: \<open>s\<close> stretch, \<open>f\<close> fit, \<open>t\<close> text, \<open>#\<close> text with
  vertical sub-pixel alignment.
\<close>

definition TileProcessing :: "string list" where
  "TileProcessing =
    [''ffffffffffffffff'', ''ffffffffffffffff'', ''#t##########t#t#'', ''tttttttttttt###t'',
     ''#ttttttttttttttt'', ''ttttttttttt#####'', ''#ttttttttttttttt'', ''ttttttttttt#####'',
     ''################'', ''################'', ''################'', ''################'',
     ''tttttttttttttttt'', ''ttttttt#tttttttt'', ''tttttttttttttttt'', ''ttttttt#tttttttt'',
     ''ffsfsfsffsssssss'', ''ssfsfsffffffffff'', ''fffffffffffffsff'', ''ffffffffffffffff'',
     ''fsssfffffffffffs'', ''fsffffffffffffff'', ''ffffssssffssffff'', ''ffffsfffffssssff'']"

definition processingOf :: "int \<Rightarrow> int \<Rightarrow> char" where
  "processingOf row column = TileProcessing ! nat row ! nat column"

text \<open>
  The static variables read by prepareTile. \<open>strayY\<close> is the word the downscaling loop
  finds at \<open>scaledY[-1]\<close>: it reads that element when the first source row lands on
  destination row 2 or lower, and C leaves the value open.
\<close>

record tiles_state =
  TilesPNG :: png
  tilePadding :: "int \<Rightarrow> int \<Rightarrow> int"
  tileShifts :: shift_table
  tileEmpty :: "int \<Rightarrow> int \<Rightarrow> bool"
  baseTileWidth :: int
  baseTileHeight :: int
  strayY :: int

text \<open>An SDL surface: its width and its 32-bit pixels (0xAABBGGRR), row-major.\<close>

record surface =
  surf_w :: int
  surf_pixels :: "int \<Rightarrow> 32 word"

subsection \<open>Pseudo-random numbers\<close>

text \<open>Each function returns its result and the new generator state.\<close>

definition xorshift64s :: "64 word \<Rightarrow> 64 word \<times> 64 word" where
  "xorshift64s state =
     (let x = state;
          x = x XOR drop_bit 12 x;
          x = x XOR push_bit 25 x;
          x = x XOR drop_bit 27 x
      in (x * 0x2545f4914f6cdd1d, x))"

definition noise :: "64 word \<Rightarrow> 64 word \<times> 64 word" where
  "noise state = (let (r, state) = xorshift64s state in (drop_bit 54 r + 0x100000280, state))"

subsection \<open>prepareTile: glyph size and coordinate maps\<close>

text \<open>\<open>shifts[0]\<close>, \<open>shifts[1]\<close>, \<open>shifts[2]\<close> for a glyph size on an axis.\<close>

definition shiftsFor :: "shift_table \<Rightarrow> int \<Rightarrow> int \<Rightarrow> int \<Rightarrow> int \<Rightarrow> int \<times> int \<times> int" where
  "shiftsFor shifts row column axis glyph =
     (if glyph > MAX_TILE_SIZE then (0, 0, 0)
      else (let b = shiftsOffset row column axis (glyph - 1)
            in (sint (shifts ! b), sint (shifts ! (b + 1)), sint (shifts ! (b + 2)))))"

text \<open>The result is \<open>(fitWidth, fitHeight, glyphWidth, glyphHeight)\<close>.\<close>

definition glyphSize :: "char \<Rightarrow> bool \<Rightarrow> int \<Rightarrow> int \<Rightarrow> int \<Rightarrow> int \<Rightarrow> int \<Rightarrow> int \<times> int \<times> int \<times> int" where
  "glyphSize processing optimizing padding baseW baseH tileWidth tileHeight =
     (let fitWidth = max 1 baseW;
          fitHeight = max 1 baseH
      in if processing = CHR ''s'' \<or> optimizing
         then (tileWidth, tileHeight, tileWidth, tileHeight)
         else if processing = CHR ''f''
         then (let stretch = max 1 (min (12 / 10)
                               (real_of_int (fitWidth * TILE_HEIGHT) / real_of_int (fitHeight * TILE_WIDTH)));
                   glyphWidth = max 1 (min fitWidth (c_round (12 / 10 * real_of_int fitHeight
                                  * real_of_int TILE_WIDTH / real_of_int (TILE_HEIGHT - 2 * padding))));
                   glyphHeight = max 1 (min fitHeight (c_round (stretch * real_of_int fitWidth
                                  * real_of_int (TILE_HEIGHT - 2 * padding) / real_of_int TILE_WIDTH)))
               in (fitWidth, fitHeight, glyphWidth, glyphHeight))
         else (let glyphWidth = max 1 (min fitWidth (c_round (14 / 10 * real_of_int fitHeight
                                  * real_of_int TILE_WIDTH / real_of_int TILE_HEIGHT)));
                   glyphHeight = max 1 (min fitHeight (c_round (14 / 10 * real_of_int fitWidth
                                  * real_of_int TILE_HEIGHT / real_of_int TILE_WIDTH)))
               in (fitWidth, fitHeight, glyphWidth, glyphHeight)))"

type_synonym stops = "int \<times> int \<times> int \<times> int \<times> int"
type_synonym maps = "real \<times> real \<times> real \<times> real \<times> real"

definition horizontalStops :: stops where
  "horizontalStops = (0, TILE_WIDTH div 5, TILE_WIDTH div 2, TILE_WIDTH * 4 div 5, TILE_WIDTH)"

definition verticalStops :: "char \<Rightarrow> int \<Rightarrow> stops" where
  "verticalStops processing padding =
     (if processing = CHR ''t''
      then (let stop4 = TILE_HEIGHT;
                stop3 = stop4 - TEXT_BASELINE;
                stop2 = stop3 - TEXT_X_HEIGHT;
                stop1 = c_div stop2 3
            in (0, stop1, stop2, stop3, stop4))
      else (let stop0 = padding;
                stop4 = TILE_HEIGHT - padding
            in (stop0, stop0 + c_div (stop4 - stop0) 5, stop0 + c_div (stop4 - stop0) 2,
                stop0 + c_div ((stop4 - stop0) * 4) 5, stop4)))"

definition horizontalMaps :: "int \<Rightarrow> int \<Rightarrow> int \<times> int \<times> int \<Rightarrow> maps" where
  "horizontalMaps fitWidth glyphWidth shifts =
     (case (horizontalStops, shifts) of ((stop0, stop1, stop2, stop3, stop4), (s0, s1, s2)) \<Rightarrow>
        let mp0 = real_of_int (c_div (fitWidth - glyphWidth + (if s0 + s1 < 0 then 1 else 0)) 2);
            mp1 = mp0 + real_of_int glyphWidth * real_of_int (stop1 - stop0) / real_of_int (stop4 - stop0)
                     + real_of_int s0 * (1 / 10);
            mp2 = mp0 + real_of_int glyphWidth * real_of_int (stop2 - stop0) / real_of_int (stop4 - stop0)
                     + real_of_int s2 * (1 / 10);
            mp3 = mp0 + real_of_int glyphWidth * real_of_int (stop3 - stop0) / real_of_int (stop4 - stop0)
                     + real_of_int s1 * (1 / 10);
            mp4 = mp0 + real_of_int glyphWidth
        in (mp0, mp1, mp2, mp3, mp4))"

text \<open>The vertical maps before the text alignment and before the shifts (mp0 .. mp4 are the map0 .. map4 of the source).\<close>

definition verticalMapsBase :: "int \<Rightarrow> int \<Rightarrow> stops \<Rightarrow> maps" where
  "verticalMapsBase fitHeight glyphHeight st =
     (case st of (stop0, stop1, stop2, stop3, stop4) \<Rightarrow>
        let mp0 = real_of_int (c_div (fitHeight - glyphHeight) 2);
            mp1 = mp0 + real_of_int glyphHeight * real_of_int (stop1 - stop0) / real_of_int (stop4 - stop0);
            mp2 = mp0 + real_of_int glyphHeight * real_of_int (stop2 - stop0) / real_of_int (stop4 - stop0);
            mp3 = mp0 + real_of_int glyphHeight * real_of_int (stop3 - stop0) / real_of_int (stop4 - stop0);
            mp4 = mp0 + real_of_int glyphHeight
        in (mp0, mp1, mp2, mp3, mp4))"

text \<open>"align stops #2 and #3 with output pixels", for \<open>t\<close> tiles only.\<close>

definition alignText :: "char \<Rightarrow> maps \<Rightarrow> maps" where
  "alignText processing m =
     (case m of (mp0, mp1, mp2, mp3, mp4) \<Rightarrow>
        if processing = CHR ''t''
        then (let mp3 = mp3 + (real_of_int (c_round mp2) - mp2);
                  mp2 = real_of_int (c_round mp2);
                  mp3 = max (mp2 + 1) (real_of_int (c_round mp3));
                  mp1 = mp0 + (mp2 - mp0) / 3
              in (mp0, mp1, mp2, mp3, mp4))
        else m)"

definition addShifts :: "int \<times> int \<times> int \<Rightarrow> maps \<Rightarrow> maps" where
  "addShifts shifts m =
     (case (shifts, m) of ((s0, s1, s2), (mp0, mp1, mp2, mp3, mp4)) \<Rightarrow>
        (mp0, mp1 + real_of_int s0 * (1 / 10), mp2 + real_of_int s2 * (1 / 10),
         mp3 + real_of_int s1 * (1 / 10), mp4))"

text \<open>The vertical maps the downscaling uses.\<close>

definition verticalMaps :: "char \<Rightarrow> int \<Rightarrow> int \<Rightarrow> stops \<Rightarrow> int \<times> int \<times> int \<Rightarrow> maps" where
  "verticalMaps processing fitHeight glyphHeight st shifts =
     addShifts shifts (alignText processing (verticalMapsBase fitHeight glyphHeight st))"

text \<open>
  The arrays \<open>scaledX\<close> and \<open>scaledY\<close> as filled by the loops over the four segments;
  source rows above \<open>stop0\<close> and from \<open>stop4\<close> on are "not mapped" (-1).
\<close>

definition segment :: "real \<Rightarrow> real \<Rightarrow> int \<Rightarrow> int \<Rightarrow> int \<Rightarrow> int" where
  "segment mapA mapB stopA stopB x =
     c_trunc (mapA + (mapB - mapA) * real_of_int (x - stopA) / real_of_int (stopB - stopA))"

definition scaled :: "stops \<Rightarrow> maps \<Rightarrow> int \<Rightarrow> int" where
  "scaled st m x =
     (case (st, m) of ((stop0, stop1, stop2, stop3, stop4), (mp0, mp1, mp2, mp3, mp4)) \<Rightarrow>
        if stop3 \<le> x \<and> x < stop4 then segment mp3 mp4 stop3 stop4 x
        else if stop2 \<le> x \<and> x < stop3 then segment mp2 mp3 stop2 stop3 x
        else if stop1 \<le> x \<and> x < stop2 then segment mp1 mp2 stop1 stop2 x
        else if stop0 \<le> x \<and> x < stop1 then segment mp0 mp1 stop0 stop1 x
        else - 1)"

subsection \<open>prepareTile: the accumulator\<close>

text \<open>
  \<open>values\<close>: one 64-bit word per destination pixel, 0xCCCCCCCCSSSSSSSS, a counter above
  a sum of squares. Addresses are flat pixel indices \<open>y * tileWidth + x\<close>.
\<close>

type_synonym accumulator = "int \<Rightarrow> 64 word"

definition accumulateRow :: "png \<Rightarrow> int \<Rightarrow> int \<Rightarrow> int \<Rightarrow> (int \<Rightarrow> int) \<Rightarrow> int \<Rightarrow> int
    \<Rightarrow> accumulator \<Rightarrow> accumulator" where
  "accumulateRow pixels row column tileWidth scaledX y0 y1 =
     for_loop 0 TILE_WIDTH 1 (\<lambda>x0 values.
       let value = (ucast (srcPixel pixels row column x0 y0) :: 64 word);
           i = y1 * tileWidth + scaledX x0
       in values(i := values i + ((value * value) OR 0x100000000)))"

definition interpolateRow :: "int \<Rightarrow> int \<Rightarrow> accumulator \<Rightarrow> accumulator" where
  "interpolateRow tileWidth y1 =
     for_loop 0 tileWidth 1 (\<lambda>x1 values.
       values(y1 * tileWidth + x1 - tileWidth :=
                values (y1 * tileWidth + x1 - 2 * tileWidth) + values (y1 * tileWidth + x1)))"

definition downscale :: "png \<Rightarrow> int \<Rightarrow> int \<Rightarrow> int \<Rightarrow> int \<Rightarrow> (int \<Rightarrow> int) \<Rightarrow> (int \<Rightarrow> int) \<Rightarrow> int
    \<Rightarrow> accumulator \<Rightarrow> accumulator" where
  "downscale pixels row column tileWidth tileHeight scaledX scaledY stray =
     for_loop 0 TILE_HEIGHT 1 (\<lambda>y0 values.
       let y1 = scaledY y0
       in if y1 < 0 \<or> y1 \<ge> tileHeight then values
          else (let values = accumulateRow pixels row column tileWidth scaledX y0 y1 values
                in if y1 \<ge> 2 \<and> (if y0 = 0 then stray else scaledY (y0 - 1)) = y1 - 2
                   then interpolateRow tileWidth y1 values
                   else values))"

text \<open>The part of prepareTile between the emptiness test and the label \<open>downscaled\<close>.\<close>

definition downscaleTile :: "tiles_state \<Rightarrow> int \<Rightarrow> int \<Rightarrow> int \<Rightarrow> int \<Rightarrow> bool
    \<Rightarrow> accumulator \<Rightarrow> accumulator" where
  "downscaleTile st tileWidth tileHeight row column optimizing values =
     (let padding = tilePadding st row column;
          processing = processingOf row column
      in case glyphSize processing optimizing padding (baseTileWidth st) (baseTileHeight st)
                tileWidth tileHeight of
           (fitWidth, fitHeight, glyphWidth, glyphHeight) \<Rightarrow>
             let scaledX = scaled horizontalStops
                   (horizontalMaps fitWidth glyphWidth
                      (shiftsFor (tileShifts st) row column 0 glyphWidth));
                 scaledY = scaled (verticalStops processing padding)
                   (verticalMaps processing fitHeight glyphHeight (verticalStops processing padding)
                      (shiftsFor (tileShifts st) row column 1 glyphHeight))
             in downscale (TilesPNG st) row column tileWidth tileHeight scaledX scaledY (strayY st) values)"

subsection \<open>prepareTile: floor dust\<close>

text \<open>One of the four "stitch edges together" loops: every 4th position from \<open>start\<close>.\<close>

definition stitch :: "(int \<Rightarrow> int) \<Rightarrow> int \<Rightarrow> int \<Rightarrow> accumulator \<times> 64 word \<Rightarrow> accumulator \<times> 64 word" where
  "stitch pos start n =
     for_loop start n 4 (\<lambda>i (values, state).
       let (v, state) = noise state in (values(pos i := v), state))"

text \<open>The Fisher-Yates shuffle of the \<open>n\<close> indexes.\<close>

definition shuffle :: "int \<Rightarrow> 32 word list \<times> 64 word \<Rightarrow> 32 word list \<times> 64 word" where
  "shuffle n =
     for_loop 0 (n - 1) 1 (\<lambda>i (idx, state).
       let (r, state) = xorshift64s state;
           j = uint r mod (n - i) + i;
           t = idx ! nat i
       in (idx[nat i := idx ! nat j, nat j := t], state))"

text \<open>"fill center with isolated dots, randomly placed".\<close>

definition dustFill :: "int \<Rightarrow> int \<Rightarrow> int \<Rightarrow> 32 word list \<Rightarrow> accumulator \<times> 64 word
    \<Rightarrow> accumulator \<times> 64 word" where
  "dustFill w h tileWidth idx =
     for_loop 0 (w * h) 1 (\<lambda>i (values, state).
       let x = 1 + uint (idx ! nat i) mod w;
           y = 1 + uint (idx ! nat i) div w;
           p = x + y * tileWidth
       in if values (p + 1) = 0 \<and>
             values (p - 1) = 0 \<and>
             values (p + tileWidth) = 0 \<and>
             values (p + tileWidth + 1) = 0 \<and>
             values (p + tileWidth - 1) = 0 \<and>
             values (p - tileWidth) = 0 \<and>
             values (p - tileWidth + 1) = 0 \<and>
             values (p - tileWidth - 1) = 0
          then (let (v, state) = noise state in (values(p := v), state))
          else (values, state))"

text \<open>The accumulator and the generator state after the four edge loops.\<close>

definition dustEdges :: "int \<Rightarrow> int \<Rightarrow> accumulator \<Rightarrow> accumulator \<times> 64 word" where
  "dustEdges tileWidth tileHeight values =
     (let w = tileWidth - 2;
          h = tileHeight - 2;
          state = 1234567
      in stitch (\<lambda>y. y * tileWidth + (w + 1)) 2 h
           (stitch (\<lambda>x. (h + 1) * tileWidth + x) 2 w
             (stitch (\<lambda>y. y * tileWidth) 0 h
               (stitch (\<lambda>x. x) 0 w (values, state)))))"

definition floorDust :: "int \<Rightarrow> int \<Rightarrow> accumulator \<Rightarrow> accumulator" where
  "floorDust tileWidth tileHeight values =
     (let w = tileWidth - 2;
          h = tileHeight - 2
      in case dustEdges tileWidth tileHeight values of (values, state) \<Rightarrow>
           case shuffle (w * h) (map word_of_int [0..w * h - 1], state) of (idx, state) \<Rightarrow>
             fst (dustFill w h tileWidth idx (values, state)))"

subsection \<open>prepareTile: wall tops\<close>

definition waveValue :: "int \<Rightarrow> int \<Rightarrow> int \<Rightarrow> int \<Rightarrow> int \<Rightarrow> int \<Rightarrow> 64 word" where
  "waveValue tileWidth tileHeight numHorizWaves numVertWaves x y =
     (let value = sin (2 * pi * (real_of_int x / real_of_int tileWidth * real_of_int numHorizWaves
                                 + real_of_int y / real_of_int tileHeight * real_of_int numVertWaves))
                    / 2 + 1 / 2
      in word_of_int (c_round (255 * 255 * value * value)) OR 0x100000000)"

function wallTops :: "int \<Rightarrow> int \<Rightarrow> int \<Rightarrow> int \<Rightarrow> int \<Rightarrow> int \<Rightarrow> accumulator \<Rightarrow> accumulator" where
  "wallTops row tileWidth tileHeight numHorizWaves numVertWaves y values =
     (if y < tileHeight
      then (if row \<noteq> 21 \<and> (y > c_div tileHeight 2 \<or> values (y * tileWidth) AND 0xffffffff \<noteq> 0)
            then values
            else wallTops row tileWidth tileHeight numHorizWaves numVertWaves (y + 1)
                   (for_loop 0 tileWidth 1 (\<lambda>x values.
                      values(y * tileWidth + x :=
                               waveValue tileWidth tileHeight numHorizWaves numVertWaves x y)) values))
      else values)"
  by pat_completeness auto
termination
  by (relation "measure (\<lambda>(row, tileWidth, tileHeight, nh, nv, y, values). nat (tileHeight - y))") auto

declare wallTops.simps [simp del]

subsection \<open>prepareTile: from the accumulator to the surface\<close>

text \<open>"average light intensity (linear scale, 0 .. 255*255)".\<close>

definition average :: "64 word \<Rightarrow> 64 word" where
  "average value =
     (if drop_bit 32 value \<noteq> 0 then (value AND 0xffffffff) div drop_bit 32 value else 0)"

text \<open>"make text look less bold, at the cost of accuracy".\<close>

definition thinText :: "64 word \<Rightarrow> 64 word" where
  "thinText value = (if value < 32512 then value div 2 else value * 3 div 2 - 32512)"

text \<open>"opacity (gamma-compressed, 0 .. 255)".\<close>

definition opacity :: "64 word \<Rightarrow> 32 word" where
  "opacity value =
     (if value = 0 then 0 else if value > 64770 then 255
      else word_of_int (c_round (sqrt (real (unat value)))))"

definition isText :: "char \<Rightarrow> bool" where
  "isText processing = (processing = CHR ''t'' \<or> processing = CHR ''#'')"

definition pixelIndex :: "surface \<Rightarrow> int \<Rightarrow> int \<Rightarrow> int \<Rightarrow> int \<Rightarrow> int \<Rightarrow> int \<Rightarrow> int" where
  "pixelIndex surface tileWidth tileHeight row column x y =
     (column * tileWidth) + (row * tileHeight + y) * surf_w surface + x"

definition convert :: "surface \<Rightarrow> int \<Rightarrow> int \<Rightarrow> int \<Rightarrow> int \<Rightarrow> char \<Rightarrow> bool \<Rightarrow> accumulator
    \<Rightarrow> (int \<Rightarrow> 32 word) \<times> real" where
  "convert surface tileWidth tileHeight row column processing optimizing values =
     for_loop 0 tileHeight 1 (\<lambda>y.
       for_loop 0 tileWidth 1 (\<lambda>x (pixels, blur).
         let value = values (y * tileWidth + x);
             value = average value;
             blur = (if optimizing then blur + sin (pi / (255 * 255) * real (unat value)) else blur);
             value = (if isText processing then thinText value else value);
             alpha = opacity value
         in (pixels(pixelIndex surface tileWidth tileHeight row column x y :=
                      push_bit 24 alpha OR 0xffffff), blur)))
       (surf_pixels surface, 0)"

subsection \<open>prepareTile\<close>

text \<open>The result is the surface after the call and the returned blur.\<close>

definition prepareTile :: "tiles_state \<Rightarrow> surface \<Rightarrow> int \<Rightarrow> int \<Rightarrow> int \<Rightarrow> int \<Rightarrow> bool
    \<Rightarrow> surface \<times> real" where
  "prepareTile st surface tileWidth tileHeight row column optimizing =
     (let processing = processingOf row column;
          fitWidth = max 1 (baseTileWidth st);
          fitHeight = max 1 (baseTileHeight st);
          numHorizWaves = max 2 (min 6 (c_round (real_of_int fitWidth * (25 / 100))));
          numVertWaves = max 2 (min 11 (c_round (real_of_int fitHeight * (25 / 100))));
          values = (\<lambda>i. 0);
          values = (if tileEmpty st row column then values
                    else downscaleTile st tileWidth tileHeight row column optimizing values);
          values = (if row = 20 \<and> column = 2 \<and> tileEmpty st row column
                       \<and> tileWidth > 2 \<and> tileHeight > 2 \<and> \<not> optimizing
                    then floorDust tileWidth tileHeight values else values);
          values = (if (row = 16 \<and> column = 2 \<or> row = 21 \<and> column = 1 \<or> row = 22 \<and> column = 4)
                       \<and> \<not> optimizing
                    then wallTops row tileWidth tileHeight numHorizWaves numVertWaves 0 values
                    else values)
      in case convert surface tileWidth tileHeight row column processing optimizing values of
           (pixels, blur) \<Rightarrow> (surface\<lparr>surf_pixels := pixels\<rparr>, blur))"

text \<open>The alpha byte of a destination pixel of the tile, after a call.\<close>

definition alphaAt :: "surface \<Rightarrow> int \<Rightarrow> int \<Rightarrow> int \<Rightarrow> int \<Rightarrow> int \<Rightarrow> int \<Rightarrow> 32 word" where
  "alphaAt surface tileWidth tileHeight row column x y =
     drop_bit 24 (surf_pixels surface (pixelIndex surface tileWidth tileHeight row column x y))"

subsection \<open>optimizeTiles\<close>

text \<open>
  The blur returned by the calibrating call
  \<open>prepareTile(surface, baseTileWidth, baseTileHeight, row, column, true)\<close> when the shift
  table holds \<open>shifts\<close>. The surface is the one created for the current tile size; the
  blur does not read it.
\<close>

definition calibrationBlur :: "tiles_state \<Rightarrow> int \<Rightarrow> int \<Rightarrow> shift_table \<Rightarrow> real" where
  "calibrationBlur st row column shifts =
     snd (prepareTile (st\<lparr>tileShifts := shifts\<rparr>)
            \<lparr>surf_w = baseTileWidth st * TILE_COLS, surf_pixels = (\<lambda>i. 0)\<rparr>
            (baseTileWidth st) (baseTileHeight st) row column True)"

text \<open>
  The innermost loop over \<open>shift\<close> and the assignment after it: \<open>pos\<close> is the address
  of \<open>shifts[idx]\<close> in the table, \<open>derive\<close> the statement that follows each store into
  \<open>shifts[idx]\<close> (the recomputation of \<open>shifts[2]\<close> for text tiles, nothing otherwise).
\<close>

definition searchShift :: "(shift_table \<Rightarrow> real) \<Rightarrow> (shift_table \<Rightarrow> shift_table) \<Rightarrow> nat \<Rightarrow> int
    \<Rightarrow> shift_table \<Rightarrow> shift_table" where
  "searchShift blurOf derive pos midShift shifts =
     (case for_loop (midShift - 5) (midShift + 5 + 1) 1
             (\<lambda>shift (shifts, bestResult, bestShift).
                let shifts = derive (shifts[pos := word_of_int shift]);
                    blur = blurOf shifts
                in if blur < bestResult then (shifts, blur, shift)
                   else (shifts, bestResult, bestShift))
             (shifts, 10 ^ 20, 0) of
        (shifts, bestResult, bestShift) \<Rightarrow> derive (shifts[pos := word_of_int bestShift]))"

text \<open>\<open>shifts[2] = (shifts[0] + shifts[1]) / 2\<close>, with \<open>shifts\<close> at address \<open>base\<close>.\<close>

definition deriveMiddle :: "nat \<Rightarrow> shift_table \<Rightarrow> shift_table" where
  "deriveMiddle base shifts =
     shifts[base + 2 := word_of_int (c_div (sint (shifts ! base) + sint (shifts ! (base + 1))) 2)]"

text \<open>
  \<open>midShift = (idx == 2 ? (shifts[0] + shifts[1]) / 2 : 0)\<close>, the centre of the search
  window.
\<close>

definition midShiftOf :: "shift_table \<Rightarrow> nat \<Rightarrow> int \<Rightarrow> int" where
  "midShiftOf shifts base idx =
     (if idx = 2 then c_div (sint (shifts ! base) + sint (shifts ! (base + 1))) 2 else 0)"

text \<open>One pass of the loop over \<open>idx\<close>: the search for one of the shifts of a size.\<close>

definition optimizeStep :: "tiles_state \<Rightarrow> int \<Rightarrow> int \<Rightarrow> int \<Rightarrow> nat \<Rightarrow> int \<Rightarrow> tiles_state" where
  "optimizeStep st row column axis base idx =
     (let processing = processingOf row column;
          shifts = tileShifts st;
          midShift = midShiftOf shifts base idx;
          derive = (if axis = 0 \<and> isText processing then deriveMiddle base else (\<lambda>shifts. shifts))
      in st\<lparr>tileShifts :=
              searchShift (calibrationBlur st row column) derive (base + nat idx) midShift shifts\<rparr>)"

text \<open>
  The loops over \<open>i\<close> and \<open>idx\<close> for one tile size on one axis (0 horizontal, 1
  vertical).
\<close>

definition optimizeSize :: "tiles_state \<Rightarrow> int \<Rightarrow> int \<Rightarrow> int \<Rightarrow> nat \<Rightarrow> tiles_state" where
  "optimizeSize st row column axis base =
     (let processing = processingOf row column;
          n = (if axis = 0 then (if isText processing then 2 else 3)
               else (if processing = CHR ''t'' then 1 else 3))
      in for_loop 0 3 1 (\<lambda>i.
           for_loop 0 n 1 (\<lambda>idx st. optimizeStep st row column axis base idx)) st)"

text \<open>The body of the loops over the tiles, for a tile that is not empty.\<close>

definition optimizeTile :: "tiles_state \<Rightarrow> int \<Rightarrow> int \<Rightarrow> tiles_state" where
  "optimizeTile st row column =
     (let st = st\<lparr>baseTileHeight := MAX_TILE_SIZE\<rparr>;
          st = for_loop 5 (MAX_TILE_SIZE + 1) 1 (\<lambda>width st.
                 optimizeSize (st\<lparr>baseTileWidth := width\<rparr>) row column 0
                   (shiftsOffset row column 0 (width - 1))) st;
          st = st\<lparr>baseTileWidth := MAX_TILE_SIZE\<rparr>;
          st = for_loop 7 (MAX_TILE_SIZE + 1) 1 (\<lambda>height st.
                 optimizeSize (st\<lparr>baseTileHeight := height\<rparr>) row column 1
                   (shiftsOffset row column 1 (height - 1))) st
      in st\<lparr>baseTileHeight := MAX_TILE_SIZE + 1\<rparr>)"

definition optimizeTiles :: "tiles_state \<Rightarrow> tiles_state" where
  "optimizeTiles =
     for_loop 0 TILE_ROWS 1 (\<lambda>row.
       for_loop 0 TILE_COLS 1 (\<lambda>column st.
         if tileEmpty st row column then st else optimizeTile st row column))"

subsection \<open>Auxiliary notions for the properties\<close>

text \<open>The pixel that the conversion loop stores for an accumulator entry.\<close>

definition pixelOf :: "char \<Rightarrow> 64 word \<Rightarrow> 32 word" where
  "pixelOf processing value =
     (let value = average value;
          value = (if isText processing then thinText value else value)
      in push_bit 24 (opacity value) OR 0xffffff)"

text \<open>The test of the interior fill: the eight neighbours of \<open>p\<close> are unlit.\<close>

definition isolated :: "int \<Rightarrow> accumulator \<Rightarrow> int \<Rightarrow> bool" where
  "isolated tileWidth values p =
     (values (p + 1) = 0 \<and>
      values (p - 1) = 0 \<and>
      values (p + tileWidth) = 0 \<and>
      values (p + tileWidth + 1) = 0 \<and>
      values (p + tileWidth - 1) = 0 \<and>
      values (p - tileWidth) = 0 \<and>
      values (p - tileWidth + 1) = 0 \<and>
      values (p - tileWidth - 1) = 0)"

text \<open>
  Two states with the same atlas: they differ at most in the contents of the shift table
  and in the base tile size.
\<close>

definition sameAtlas :: "tiles_state \<Rightarrow> tiles_state \<Rightarrow> bool" where
  "sameAtlas s t \<longleftrightarrow>
     TilesPNG s = TilesPNG t \<and> tilePadding s = tilePadding t \<and> tileEmpty s = tileEmpty t
     \<and> strayY s = strayY t \<and> length (tileShifts s) = length (tileShifts t)"

text \<open>
  The state in which the optimizer searches the horizontal shifts of tile (16, 2) on an
  all-white atlas: the tile is not empty, has no padding, is rendered 64 pixels high, and
  its vertical entry for that height (offset 99453 of \<open>shifts\<close>) is zero.
\<close>

definition whiteReady :: "tiles_state \<Rightarrow> shift_table \<Rightarrow> bool" where
  "whiteReady st shifts \<longleftrightarrow>
     TilesPNG st = (\<lambda>i. 0xffffffff) \<and> \<not> tileEmpty st 16 2 \<and> tilePadding st 16 2 = 0
     \<and> baseTileHeight st = 64
     \<and> shifts ! 99453 = 0 \<and> shifts ! 99454 = 0 \<and> shifts ! 99455 = 0"

text \<open>What one white source pixel adds to an accumulator entry: count 1, sum 255 * 255.\<close>

definition whiteSum :: "64 word" where
  "whiteSum = 0x10000FE01"











subsection \<open>Sample inputs\<close>

text \<open>A state whose atlas is blank (every tile empty), and a blank surface 48 pixels wide.\<close>

definition emptyAtlasState :: tiles_state where
  "emptyAtlasState =
     \<lparr>TilesPNG = (\<lambda>i. 0), tilePadding = (\<lambda>row column. 0),
      tileShifts = replicate sizeof_tileShifts 0, tileEmpty = (\<lambda>row column. True),
      baseTileWidth = 3, baseTileHeight = 3, strayY = 0\<rparr>"

text \<open>
  A state whose shift table holds 3 in \<open>shifts[0]\<close> of the vertical entry of tile (2, 1)
  for glyph height 20, with a base tile of 10 by 20 pixels.
\<close>

definition textShiftState :: tiles_state where
  "textShiftState =
     \<lparr>TilesPNG = (\<lambda>i. 0), tilePadding = (\<lambda>row column. 0),
      tileShifts = (replicate sizeof_tileShifts 0) [shiftsOffset 2 1 1 19 := 3],
      tileEmpty = (\<lambda>row column. False),
      baseTileWidth = 10, baseTileHeight = 20, strayY = 0\<rparr>"

definition blankSurface :: surface where
  "blankSurface = \<lparr>surf_w = 48, surf_pixels = (\<lambda>i. 0)\<rparr>"

text \<open>An atlas whose only lit pixel is at column 5 of row 3 of tile (0, 0).\<close>

definition onePixelAtlas :: png where
  "onePixelAtlas = (\<lambda>i. if i = 5 + 3 * 2048 then 0xff0000ff else 0)"

text \<open>
  A state whose atlas is white everywhere: no tile is empty and no tile has padding, as
  isTileEmpty and getPadding find them; the shift table is zeroed.
\<close>

definition whiteAtlasState :: tiles_state where
  "whiteAtlasState =
     \<lparr>TilesPNG = (\<lambda>i. 0xffffffff), tilePadding = (\<lambda>row column. 0),
      tileShifts = replicate sizeof_tileShifts 0, tileEmpty = (\<lambda>row column. False),
      baseTileWidth = - 1, baseTileHeight = - 1, strayY = 0\<rparr>"


section \<open>Properties\<close>

subsection \<open>Loops\<close>

lemma for_loop_inv:
  assumes "P i s" and "i \<le> n"
    and "\<And>j t. i \<le> j \<Longrightarrow> j < n \<Longrightarrow> P j t \<Longrightarrow> P (j + 1) (body j t)"
  shows "P n (for_loop i n 1 body s)"
  using assms
proof (induction "nat (n - i)" arbitrary: i s)
  case 0
  then have "i = n" by simp
  with 0 show ?case by (simp add: for_loop.simps)
next
  case (Suc k)
  then have lt: "i < n" by simp
  have "P n (for_loop (i + 1) n 1 body (body i s))"
  proof (rule Suc.hyps(1))
    show "k = nat (n - (i + 1))" using Suc.hyps(2) by simp
    show "P (i + 1) (body i s)" using Suc.prems(3) [of i s] Suc.prems(1) lt by simp
    show "i + 1 \<le> n" using lt by simp
    show "\<And>j t. i + 1 \<le> j \<Longrightarrow> j < n \<Longrightarrow> P j t \<Longrightarrow> P (j + 1) (body j t)"
      using Suc.prems(3) by simp
  qed
  with lt show ?case by (subst for_loop.simps) simp
qed

lemma for_loop_keeps:
  assumes "Q s" and "\<And>j t. i \<le> j \<Longrightarrow> j < n \<Longrightarrow> Q t \<Longrightarrow> Q (body j t)"
  shows "Q (for_loop i n step body s)"
  using assms
proof (induction i n step body s rule: for_loop.induct)
  case (1 i n step body s)
  show ?case
  proof (cases "i < n \<and> 0 < step")
    case True
    have "Q (for_loop (i + step) n step body (body i s))"
    proof (rule 1(1))
      show "i < n \<and> 0 < step" by (rule True)
      show "Q (body i s)" using 1(2,3) True by simp
      show "\<And>j t. i + step \<le> j \<Longrightarrow> j < n \<Longrightarrow> Q t \<Longrightarrow> Q (body j t)"
        using 1(3) True by simp
    qed
    with True show ?thesis by (subst for_loop.simps) simp
  next
    case False
    with 1(2) show ?thesis by (subst for_loop.simps) auto
  qed
qed

lemma for_loop_pair:
  "(for_loop i n step b1 s, for_loop i n step b2 t)
     = for_loop i n step (\<lambda>j (s, t). (b1 j s, b2 j t)) (s, t)"
proof (induction i n step b1 s arbitrary: t rule: for_loop.induct)
  case (1 i n step b1 s)
  show ?case
  proof (cases "i < n \<and> 0 < step")
    case True
    from 1 [OF True, of "b2 i t"] True show ?thesis
      by (subst (1 2 3) for_loop.simps) simp
  next
    case False
    then show ?thesis by (subst (1 2 3) for_loop.simps) auto
  qed
qed

subsection \<open>Texture variants\<close>

lemma c_div_nonneg: "0 \<le> a \<Longrightarrow> 0 < b \<Longrightarrow> c_div a b = a div b"
  by (auto simp: c_div_def sgn_if)

text \<open>
  The screen grid gives every cell the quotient \<open>output / n\<close> or one pixel more.
\<close>

lemma cellSize_cases:
  assumes "0 \<le> output" "0 < n" "0 \<le> x"
  shows "cellSize output n x = output div n \<or> cellSize output n x = output div n + 1"
proof -
  have e1: "c_div ((x + 1) * output) n = ((x + 1) * output) div n"
    using assms by (intro c_div_nonneg) auto
  have e2: "c_div (x * output) n = (x * output) div n"
    using assms by (intro c_div_nonneg) auto
  define q where "q = output div n"
  define r where "r = output mod n"
  have o: "output = q * n + r" by (simp add: q_def r_def)
  have r: "0 \<le> r" "r < n" using assms by (simp_all add: r_def)
  have a: "(x + 1) * output = (x * output) + output" by (simp add: algebra_simps)
  define A where "A = (x * output) div n"
  define B where "B = (x * output) mod n"
  have xo: "x * output = A * n + B" by (simp add: A_def B_def)
  have B: "0 \<le> B" "B < n" using assms by (simp_all add: B_def)
  have "(x + 1) * output = (A + q) * n + (B + r)"
    unfolding a by (subst o, subst xo) (simp add: algebra_simps)
  then have "((x + 1) * output) div n = A + q + (B + r) div n"
    using assms(2) by (simp add: add.commute)
  moreover have "(B + r) div n = 0 \<or> (B + r) div n = 1"
  proof (cases "B + r < n")
    case True then show ?thesis using B r by simp
  next
    case False
    then have "B + r - n < n" "0 \<le> B + r - n" using B r by auto
    then have "(B + r - n) div n = 0" by simp
    moreover have "(B + r) div n = (B + r - n) div n + 1"
      using assms(2) by (metis diff_add_cancel div_add_self2 less_irrefl)
    ultimately show ?thesis by simp
  qed
  ultimately show ?thesis
    unfolding cellSize_def e1 e2 A_def[symmetric] q_def[symmetric] by auto
qed

text \<open>
  C2, as the code has it. For a cell whose width and height are the base tile size or one
  more, getTexture (older variant) returns one index 0..3 and the texture built under
  that index has tiles of exactly the cell's size; updateScreen (newer variant) makes the
  same choice, with a source rectangle of the cell's size, when four textures were built
  (\<open>numTextures = 4\<close>).
\<close>

theorem texture_variant_selection:
  assumes "tileWidth = baseW \<or> tileWidth = baseW + 1"
    and "tileHeight = baseH \<or> tileHeight = baseH + 1"
  shows "getTexture_old baseW baseH tileWidth tileHeight \<in> {0, 1, 2, 3}
       \<and> textureTileWidth baseW (getTexture_old baseW baseH tileWidth tileHeight) = tileWidth
       \<and> textureTileHeight baseH (getTexture_old baseW baseH tileWidth tileHeight) = tileHeight
       \<and> (\<exists>i \<in> {0, 1, 2, 3}. selectTexture 4 baseW baseH tileWidth tileHeight = (i, tileWidth, tileHeight)
             \<and> textureTileWidth baseW i = tileWidth \<and> textureTileHeight baseH i = tileHeight)"
  using assms
  by (auto simp: getTexture_old_def selectTexture_def textureTileWidth_def textureTileHeight_def)

theorem texture_variant_selection_witness:
  "((11::int) = 10 \<or> (11::int) = 10 + 1) \<and> ((20::int) = 20 \<or> (20::int) = 20 + 1)
   \<and> getTexture_old 10 20 11 20 = 1
   \<and> textureTileWidth 10 (getTexture_old 10 20 11 20) = 11
   \<and> textureTileHeight 20 (getTexture_old 10 20 11 20) = 20
   \<and> selectTexture 4 10 20 11 20 = (1, 11, 20)"
proof -
  have h1: "(11::int) = 10 \<or> (11::int) = 10 + 1" by simp
  have h2: "(20::int) = 20 \<or> (20::int) = 20 + 1" by simp
  from texture_variant_selection [OF h1 h2]
  show ?thesis by (simp add: getTexture_old_def selectTexture_def)
qed

text \<open>
  C2 as stated fails in the newer variant when a single texture was built. With the
  game's grid of 100 by 34 cells and an output of 12801 by 4352 pixels, loadTiles chooses
  a base tile of 128 by 128 and one texture; the last cell of a row is 129 pixels wide,
  one more than the base, and is drawn from texture 0 with its 128-pixel tiles, left to
  the renderer to stretch.
\<close>

theorem single_texture_counterexample:
  "chooseTileSize 100 34 12801 4352 = (128, 128, 1)
   \<and> cellSize 12801 100 99 = 128 + 1 \<and> cellSize 4352 34 0 = 128
   \<and> selectTexture 1 128 128 (cellSize 12801 100 99) (cellSize 4352 34 0) = (0, 128, 128)
   \<and> textureTileWidth 128 0 \<noteq> cellSize 12801 100 99"
  by (simp add: chooseTileSize_def cellSize_def c_div_def c_round_def selectTexture_def
        textureTileWidth_def MAX_TILE_SIZE_def TILE_HEIGHT_def TILE_WIDTH_def Let_def)

subsection \<open>Padding\<close>

lemma getPadding_from_bounds:
  "padding \<le> TILE_HEIGHT div 4 \<Longrightarrow>
     padding \<le> getPadding_from pixels row column padding \<and>
     getPadding_from pixels row column padding \<le> TILE_HEIGHT div 4"
proof (induction pixels row column padding rule: getPadding_from.induct)
  case (1 pixels row column padding)
  show ?case
  proof (cases "padding < TILE_HEIGHT div 4 \<and> \<not> paddingRowsLit pixels row column padding")
    case True
    then have "padding + 1 \<le> TILE_HEIGHT div 4" by simp
    with 1 True have "padding + 1 \<le> getPadding_from pixels row column (padding + 1) \<and>
        getPadding_from pixels row column (padding + 1) \<le> TILE_HEIGHT div 4" by blast
    with True show ?thesis by (subst (1 2) getPadding_from.simps) simp
  next
    case False
    with 1(2) show ?thesis by (subst (1 2) getPadding_from.simps) auto
  qed
qed

lemma getPadding_from_skipped:
  "padding \<le> p \<Longrightarrow> p < getPadding_from pixels row column padding \<Longrightarrow>
     \<not> paddingRowsLit pixels row column p"
proof (induction pixels row column padding rule: getPadding_from.induct)
  case (1 pixels row column padding)
  show ?case
  proof (cases "padding < TILE_HEIGHT div 4 \<and> \<not> paddingRowsLit pixels row column padding")
    case True
    then have e: "getPadding_from pixels row column padding
        = getPadding_from pixels row column (padding + 1)"
      by (subst getPadding_from.simps) simp
    show ?thesis
    proof (cases "p = padding")
      case True
      with \<open>padding < TILE_HEIGHT div 4 \<and> \<not> paddingRowsLit pixels row column padding\<close>
      show ?thesis by simp
    next
      case False
      with 1(2) have "padding + 1 \<le> p" by simp
      with 1(1) True 1(3) e show ?thesis by simp
    qed
  next
    case False
    then have "getPadding_from pixels row column padding = padding"
      by (subst getPadding_from.simps) auto
    with 1(2,3) show ?thesis by simp
  qed
qed

lemma getPadding_from_found:
  "getPadding_from pixels row column padding < TILE_HEIGHT div 4 \<Longrightarrow>
     paddingRowsLit pixels row column (getPadding_from pixels row column padding)"
proof (induction pixels row column padding rule: getPadding_from.induct)
  case (1 pixels row column padding)
  show ?case
  proof (cases "padding < TILE_HEIGHT div 4 \<and> \<not> paddingRowsLit pixels row column padding")
    case True
    then have e: "getPadding_from pixels row column padding
        = getPadding_from pixels row column (padding + 1)"
      by (subst getPadding_from.simps) simp
    with 1 True show ?thesis by simp
  next
    case False
    then have e: "getPadding_from pixels row column padding = padding"
      by (subst getPadding_from.simps) auto
    with 1(2) False show ?thesis by simp
  qed
qed

lemma paddingRowsLit_iff:
  "paddingRowsLit pixels row column p \<longleftrightarrow>
     (\<exists>x. 0 \<le> x \<and> x < TILE_WIDTH \<and>
        (srcPixel pixels row column x p \<noteq> 0
         \<or> srcPixel pixels row column x (TILE_HEIGHT - p - 1) \<noteq> 0))"
  by (auto simp: paddingRowsLit_def list_ex_iff)

text \<open>
  C9. getPadding returns the smallest offset \<open>p\<close> below \<open>TILE_HEIGHT / 4\<close> such that row
  \<open>p\<close> or row \<open>TILE_HEIGHT - p - 1\<close> of the cell has a pixel with a nonzero sample, and
  \<open>TILE_HEIGHT / 4\<close> when there is none; the result lies in \<open>[0, TILE_HEIGHT / 4]\<close>.
\<close>

theorem getPadding_least_lit_row:
  "0 \<le> getPadding pixels row column \<and> getPadding pixels row column \<le> TILE_HEIGHT div 4
   \<and> (\<forall>p. 0 \<le> p \<and> p < getPadding pixels row column \<longrightarrow>
         \<not> (\<exists>x. 0 \<le> x \<and> x < TILE_WIDTH \<and>
               (srcPixel pixels row column x p \<noteq> 0
                \<or> srcPixel pixels row column x (TILE_HEIGHT - p - 1) \<noteq> 0)))
   \<and> (getPadding pixels row column < TILE_HEIGHT div 4 \<longrightarrow>
         (\<exists>x. 0 \<le> x \<and> x < TILE_WIDTH \<and>
            (srcPixel pixels row column x (getPadding pixels row column) \<noteq> 0
             \<or> srcPixel pixels row column x
                  (TILE_HEIGHT - getPadding pixels row column - 1) \<noteq> 0)))
   \<and> ((\<forall>p. 0 \<le> p \<and> p < TILE_HEIGHT div 4 \<longrightarrow> \<not> paddingRowsLit pixels row column p)
         \<longrightarrow> getPadding pixels row column = TILE_HEIGHT div 4)"
proof -
  let ?r = "getPadding pixels row column"
  have b: "0 \<le> ?r \<and> ?r \<le> TILE_HEIGHT div 4"
    unfolding getPadding_def
    using getPadding_from_bounds [of 0 pixels row column] by (simp add: TILE_HEIGHT_def)
  have s: "\<forall>p. 0 \<le> p \<and> p < ?r \<longrightarrow> \<not> paddingRowsLit pixels row column p"
    unfolding getPadding_def using getPadding_from_skipped [of 0 _ pixels row column] by blast
  have f: "?r < TILE_HEIGHT div 4 \<longrightarrow> paddingRowsLit pixels row column ?r"
    unfolding getPadding_def using getPadding_from_found [of pixels row column 0] by blast
  have c: "(\<forall>p. 0 \<le> p \<and> p < TILE_HEIGHT div 4 \<longrightarrow> \<not> paddingRowsLit pixels row column p)
         \<longrightarrow> ?r = TILE_HEIGHT div 4"
    using b f by force
  from b s f c show ?thesis unfolding paddingRowsLit_iff by blast
qed

lemma onePixelAtlas_padding: "getPadding onePixelAtlas 0 0 = 3"
  unfolding getPadding_def
  by (simp add: getPadding_from.simps paddingRowsLit_def srcPixel_def onePixelAtlas_def
        TILE_HEIGHT_def TILE_WIDTH_def PNG_WIDTH_def upto.simps)

theorem getPadding_least_lit_row_witness:
  "getPadding onePixelAtlas 0 0 = 3 \<and> (3::int) < TILE_HEIGHT div 4
   \<and> \<not> (\<exists>x. 0 \<le> x \<and> x < TILE_WIDTH \<and>
               (srcPixel onePixelAtlas 0 0 x 2 \<noteq> 0
                \<or> srcPixel onePixelAtlas 0 0 x (TILE_HEIGHT - 2 - 1) \<noteq> 0))
   \<and> (\<exists>x. 0 \<le> x \<and> x < TILE_WIDTH \<and>
          (srcPixel onePixelAtlas 0 0 x 3 \<noteq> 0
           \<or> srcPixel onePixelAtlas 0 0 x (TILE_HEIGHT - 3 - 1) \<noteq> 0))"
proof -
  have lt: "(3::int) < TILE_HEIGHT div 4" by (simp add: TILE_HEIGHT_def)
  note t = getPadding_least_lit_row [of onePixelAtlas 0 0, unfolded onePixelAtlas_padding]
  from t have "\<forall>p. 0 \<le> p \<and> p < 3 \<longrightarrow>
      \<not> (\<exists>x. 0 \<le> x \<and> x < TILE_WIDTH \<and>
               (srcPixel onePixelAtlas 0 0 x p \<noteq> 0
                \<or> srcPixel onePixelAtlas 0 0 x (TILE_HEIGHT - p - 1) \<noteq> 0))"
    by blast
  then have a: "\<not> (\<exists>x. 0 \<le> x \<and> x < TILE_WIDTH \<and>
               (srcPixel onePixelAtlas 0 0 x 2 \<noteq> 0
                \<or> srcPixel onePixelAtlas 0 0 x (TILE_HEIGHT - 2 - 1) \<noteq> 0))"
    by (rule allE [of _ 2]) simp
  from t lt have b: "\<exists>x. 0 \<le> x \<and> x < TILE_WIDTH \<and>
          (srcPixel onePixelAtlas 0 0 x 3 \<noteq> 0
           \<or> srcPixel onePixelAtlas 0 0 x (TILE_HEIGHT - 3 - 1) \<noteq> 0)"
    by blast
  from a b lt show ?thesis by (simp only: onePixelAtlas_padding simp_thms)
qed

subsection \<open>The cache file\<close>

text \<open>
  C6. Writing the whole shift table to a fresh cache file and reading the file back into
  a table of the same size gives the table that was written, whatever its contents.
\<close>

theorem cache_roundtrip:
  "length t = sizeof_tileShifts \<Longrightarrow> length buf = sizeof_tileShifts \<Longrightarrow>
     fread_bytes buf sizeof_tileShifts (fwrite_bytes t sizeof_tileShifts) = t"
  by (simp add: fread_bytes_def fwrite_bytes_def)

theorem cache_roundtrip_witness:
  "length ((replicate sizeof_tileShifts 0) [7 := - 5]) = sizeof_tileShifts
   \<and> length (replicate sizeof_tileShifts (0 :: 8 word)) = sizeof_tileShifts
   \<and> fread_bytes (replicate sizeof_tileShifts 0) sizeof_tileShifts
        (fwrite_bytes ((replicate sizeof_tileShifts 0) [7 := - 5]) sizeof_tileShifts)
      = (replicate sizeof_tileShifts 0) [7 := - 5]"
proof -
  have h1: "length ((replicate sizeof_tileShifts (0 :: 8 word)) [7 := - 5]) = sizeof_tileShifts"
    by simp
  have h2: "length (replicate sizeof_tileShifts (0 :: 8 word)) = sizeof_tileShifts" by simp
  from cache_roundtrip [OF h1 h2] h1 h2 show ?thesis by simp
qed

subsection \<open>The rasterizer on empty tiles\<close>

lemma store2_const:
  fixes s0 :: "(int \<Rightarrow> 32 word) \<times> real"
  assumes g: "\<And>x y. 0 \<le> x \<Longrightarrow> x < tw \<Longrightarrow> 0 \<le> y \<Longrightarrow> y < th \<Longrightarrow> g x y = c"
    and xy: "0 \<le> x" "x < tw" "0 \<le> y" "y < th"
  shows "fst (for_loop 0 th 1 (\<lambda>y. for_loop 0 tw 1 (\<lambda>x (p, b). (p(f x y := g x y), h x y b))) s0)
           (f x y) = c"
proof -
  define inner where "inner = (\<lambda>y. for_loop 0 tw 1 (\<lambda>x (p, b). (p(f x y := g x y), h x y b)))"
  define P where "P = (\<lambda>(k::int) (s :: (int \<Rightarrow> 32 word) \<times> real).
      \<forall>x' y'. 0 \<le> x' \<and> x' < tw \<and> 0 \<le> y' \<and> y' < k \<longrightarrow> fst s (f x' y') = c)"
  have "P th (for_loop 0 th 1 inner s0)"
  proof (rule for_loop_inv [where P = P])
    show "P 0 s0" unfolding P_def by auto
    show "0 \<le> th" using xy by simp
  next
    fix k :: int and t :: "(int \<Rightarrow> 32 word) \<times> real"
    assume k: "0 \<le> k" "k < th" and Pk: "P k t"
    define Q where "Q = (\<lambda>(j::int) (s :: (int \<Rightarrow> 32 word) \<times> real).
        (\<forall>x' y'. 0 \<le> x' \<and> x' < tw \<and> 0 \<le> y' \<and> y' < k \<longrightarrow> fst s (f x' y') = c)
         \<and> (\<forall>x'. 0 \<le> x' \<and> x' < j \<longrightarrow> fst s (f x' k) = c))"
    have Q: "Q tw (inner k t)"
      unfolding inner_def
    proof (rule for_loop_inv [where P = Q])
      show "Q 0 t" using Pk unfolding Q_def P_def by auto
      show "0 \<le> tw" using xy by simp
    next
      fix j :: int and s :: "(int \<Rightarrow> 32 word) \<times> real"
      assume j: "0 \<le> j" "j < tw" and Q: "Q j s"
      obtain p b where s: "s = (p, b)" by (cases s)
      have gj: "g j k = c" using g j k by simp
      have a: "\<forall>x' y'. 0 \<le> x' \<and> x' < tw \<and> 0 \<le> y' \<and> y' < k \<longrightarrow> (p(f j k := c)) (f x' y') = c"
        using Q unfolding Q_def by (simp add: s)
      have b: "\<forall>x'. 0 \<le> x' \<and> x' < j + 1 \<longrightarrow> (p(f j k := c)) (f x' k) = c"
      proof (intro allI impI)
        fix x' assume r: "0 \<le> x' \<and> x' < j + 1"
        then have "x' < j \<or> x' = j" by linarith
        then show "(p(f j k := c)) (f x' k) = c"
        proof
          assume "x' < j" with Q r show ?thesis unfolding Q_def by (simp add: s)
        next
          assume "x' = j" then show ?thesis by simp
        qed
      qed
      show "Q (j + 1) (case s of (p, b) \<Rightarrow> (p(f j k := g j k), h j k b))"
        unfolding s gj Q_def using a b by simp
    qed
    show "P (k + 1) (inner k t)"
      unfolding P_def
    proof (intro allI impI)
      fix x' y' assume r: "0 \<le> x' \<and> x' < tw \<and> 0 \<le> y' \<and> y' < k + 1"
      then have "y' < k \<or> y' = k" by linarith
      then show "fst (inner k t) (f x' y') = c"
      proof
        assume "y' < k" with Q r show ?thesis unfolding Q_def by blast
      next
        assume "y' = k" with Q r show ?thesis unfolding Q_def by blast
      qed
    qed
  qed
  then show ?thesis using xy unfolding P_def inner_def by blast
qed

lemma store2_rel:
  fixes s1 s2 :: "(int \<Rightarrow> 32 word) \<times> real"
  assumes xy: "0 \<le> x" "x < tw" "0 \<le> y" "y < th"
  shows "fst (for_loop 0 th 1 (\<lambda>y. for_loop 0 tw 1 (\<lambda>x (p, b). (p(f x y := g x y), h x y b))) s1)
           (f x y)
       = fst (for_loop 0 th 1 (\<lambda>y. for_loop 0 tw 1 (\<lambda>x (p, b). (p(f x y := g x y), h' x y b))) s2)
           (f x y)"
proof -
  define b1 where "b1 = (\<lambda>(y::int) (x::int) (pb :: (int \<Rightarrow> 32 word) \<times> real).
      case pb of (p, b) \<Rightarrow> (p(f x y := g x y), h x y b))"
  define b2 where "b2 = (\<lambda>(y::int) (x::int) (pb :: (int \<Rightarrow> 32 word) \<times> real).
      case pb of (p, b) \<Rightarrow> (p(f x y := g x y), h' x y b))"
  define i1 where "i1 = (\<lambda>y. for_loop 0 tw 1 (b1 y))"
  define i2 where "i2 = (\<lambda>y. for_loop 0 tw 1 (b2 y))"
  define P where "P = (\<lambda>(k::int) (st :: ((int \<Rightarrow> 32 word) \<times> real) \<times> ((int \<Rightarrow> 32 word) \<times> real)).
      \<forall>x' y'. 0 \<le> x' \<and> x' < tw \<and> 0 \<le> y' \<and> y' < k \<longrightarrow>
               fst (fst st) (f x' y') = fst (snd st) (f x' y'))"
  have "P th (for_loop 0 th 1 (\<lambda>j (s, t). (i1 j s, i2 j t)) (s1, s2))"
  proof (rule for_loop_inv [where P = P])
    show "P 0 (s1, s2)" unfolding P_def by auto
    show "0 \<le> th" using xy by simp
  next
    fix k :: int and st :: "((int \<Rightarrow> 32 word) \<times> real) \<times> ((int \<Rightarrow> 32 word) \<times> real)"
    assume k: "0 \<le> k" "k < th" and Pk: "P k st"
    obtain s t where st: "st = (s, t)" by (cases st)
    define Q where "Q = (\<lambda>(j::int) (st :: ((int \<Rightarrow> 32 word) \<times> real) \<times> ((int \<Rightarrow> 32 word) \<times> real)).
        (\<forall>x' y'. 0 \<le> x' \<and> x' < tw \<and> 0 \<le> y' \<and> y' < k \<longrightarrow>
                          fst (fst st) (f x' y') = fst (snd st) (f x' y'))
         \<and> (\<forall>x'. 0 \<le> x' \<and> x' < j \<longrightarrow> fst (fst st) (f x' k) = fst (snd st) (f x' k)))"
    have "Q tw (for_loop 0 tw 1 (\<lambda>j (s, t). (b1 k j s, b2 k j t)) (s, t))"
    proof (rule for_loop_inv [where P = Q])
      show "Q 0 (s, t)" using Pk st unfolding Q_def P_def by auto
      show "0 \<le> tw" using xy by simp
    next
      fix j :: int and u :: "((int \<Rightarrow> 32 word) \<times> real) \<times> ((int \<Rightarrow> 32 word) \<times> real)"
      assume j: "0 \<le> j" "j < tw" and Q: "Q j u"
      obtain p b q d where u: "u = ((p, b), (q, d))" by (cases u) auto
      have a: "\<forall>x' y'. 0 \<le> x' \<and> x' < tw \<and> 0 \<le> y' \<and> y' < k \<longrightarrow>
          (p(f j k := g j k)) (f x' y') = (q(f j k := g j k)) (f x' y')"
        using Q unfolding Q_def by (simp add: u)
      have b: "\<forall>x'. 0 \<le> x' \<and> x' < j + 1 \<longrightarrow>
          (p(f j k := g j k)) (f x' k) = (q(f j k := g j k)) (f x' k)"
      proof (intro allI impI)
        fix x' assume r: "0 \<le> x' \<and> x' < j + 1"
        then have "x' < j \<or> x' = j" by linarith
        then show "(p(f j k := g j k)) (f x' k) = (q(f j k := g j k)) (f x' k)"
        proof
          assume "x' < j" with Q r show ?thesis unfolding Q_def by (simp add: u)
        next
          assume "x' = j" then show ?thesis by simp
        qed
      qed
      show "Q (j + 1) (case u of (s, t) \<Rightarrow> (b1 k j s, b2 k j t))"
        unfolding u Q_def b1_def b2_def using a b by simp
    qed
    then have Q: "Q tw (i1 k s, i2 k t)" unfolding i1_def i2_def by (simp only: for_loop_pair)
    show "P (k + 1) (case st of (s, t) \<Rightarrow> (i1 k s, i2 k t))"
      unfolding P_def st
    proof (intro allI impI)
      fix x' y' assume r: "0 \<le> x' \<and> x' < tw \<and> 0 \<le> y' \<and> y' < k + 1"
      then have "y' < k \<or> y' = k" by linarith
      then show "fst (fst (case (s, t) of (s, t) \<Rightarrow> (i1 k s, i2 k t))) (f x' y')
          = fst (snd (case (s, t) of (s, t) \<Rightarrow> (i1 k s, i2 k t))) (f x' y')"
      proof
        assume "y' < k" with Q r show ?thesis unfolding Q_def by simp
      next
        assume "y' = k" with Q r show ?thesis unfolding Q_def by simp
      qed
    qed
  qed
  then have "P th (for_loop 0 th 1 i1 s1, for_loop 0 th 1 i2 s2)"
    by (simp only: for_loop_pair)
  then have "fst (for_loop 0 th 1 i1 s1) (f x y) = fst (for_loop 0 th 1 i2 s2) (f x y)"
    using xy unfolding P_def by simp
  then show ?thesis unfolding i1_def i2_def b1_def b2_def .
qed

lemma convert_alt:
  "convert surface tw th row column pr opt values =
     for_loop 0 th 1 (\<lambda>y. for_loop 0 tw 1 (\<lambda>x (p, b).
        (p(pixelIndex surface tw th row column x y := pixelOf pr (values (y * tw + x))),
         (if opt then b + sin (pi / (255 * 255) * real (unat (average (values (y * tw + x))))) else b))))
       (surf_pixels surface, 0)"
  by (simp add: convert_def pixelOf_def Let_def)

lemma pixelOf_zero: "pixelOf pr 0 = 0xffffff"
  by (simp add: pixelOf_def average_def thinText_def opacity_def)

lemma pixelIndex_pixels [simp]:
  "pixelIndex (surface\<lparr>surf_pixels := p\<rparr>) tw th row column x y = pixelIndex surface tw th row column x y"
  by (simp add: pixelIndex_def)

text \<open>
  C1, as the code has it. A call of prepareTile with \<open>optimizing = false\<close> on a tile
  whose empty flag is set leaves every destination pixel of the tile with alpha 0, except
  for four tiles that are drawn procedurally: the floor tile (row 20, column 2), when the
  destination tile is more than 2 pixels wide and high, and the three wall tops (row 16
  column 2, row 21 column 1, row 22 column 4).
\<close>

theorem empty_tile_transparent:
  assumes "tileEmpty st row column"
    and "\<not> (row = 20 \<and> column = 2 \<and> tileWidth > 2 \<and> tileHeight > 2)"
    and "\<not> (row = 16 \<and> column = 2)"
    and "\<not> (row = 21 \<and> column = 1)" and "\<not> (row = 22 \<and> column = 4)"
    and "0 \<le> x" "x < tileWidth" "0 \<le> y" "y < tileHeight"
  shows "alphaAt (fst (prepareTile st surface tileWidth tileHeight row column False))
           tileWidth tileHeight row column x y = 0"
proof -
  have "fst (convert surface tileWidth tileHeight row column (processingOf row column) False (\<lambda>i. 0))
          (pixelIndex surface tileWidth tileHeight row column x y) = 0xffffff"
    unfolding convert_alt
    by (rule store2_const) (simp_all add: pixelOf_zero assms)
  moreover have "prepareTile st surface tileWidth tileHeight row column False
      = (surface\<lparr>surf_pixels := fst (convert surface tileWidth tileHeight row column
            (processingOf row column) False (\<lambda>i. 0))\<rparr>,
         snd (convert surface tileWidth tileHeight row column
            (processingOf row column) False (\<lambda>i. 0)))"
  proof -
    have c1: "\<And>b. (row = 20 \<and> column = 2 \<and> b
                 \<and> tileWidth > 2 \<and> tileHeight > 2 \<and> \<not> False) = False"
      using assms(2) by blast
    have c2: "((row = 16 \<and> column = 2 \<or> row = 21 \<and> column = 1 \<or> row = 22 \<and> column = 4)
                 \<and> \<not> False) = False"
      using assms(3-5) by blast
    have c0: "tileEmpty st row column = True" using assms(1) by simp
    show ?thesis
      by (simp only: prepareTile_def Let_def c0 c1 c2 if_True if_False case_prod_beta)
  qed
  ultimately show ?thesis by (simp add: alphaAt_def)
qed

lemma c_round_sqrt:
  assumes "(2 * r - 1) ^ 2 \<le> 4 * int n" and "4 * int n < (2 * r + 1) ^ 2" and "0 \<le> r"
  shows "c_round (sqrt (real n)) = r"
proof -
  have lo: "real_of_int r - 1 / 2 \<le> sqrt (real n)"
  proof (rule real_le_rsqrt)
    have "real_of_int ((2 * r - 1) ^ 2) \<le> real_of_int (4 * int n)"
      using assms(1) by (simp only: of_int_le_iff)
    then show "(real_of_int r - 1 / 2)\<^sup>2 \<le> real n"
      by (simp add: power2_eq_square algebra_simps)
  qed
  have hi: "sqrt (real n) < real_of_int r + 1 / 2"
  proof (rule real_less_lsqrt)
    show "0 \<le> real_of_int r + 1 / 2" using assms(3) by simp
    have "real_of_int (4 * int n) < real_of_int ((2 * r + 1) ^ 2)"
      using assms(2) by (simp only: of_int_less_iff)
    then show "real n < (real_of_int r + 1 / 2)\<^sup>2"
      by (simp add: power2_eq_square algebra_simps)
  qed
  have "\<lfloor>sqrt (real n) + 1 / 2\<rfloor> = r"
    using lo hi by (intro floor_unique) simp_all
  then show ?thesis by (simp add: c_round_def)
qed

lemma floorDust_3_3: "floorDust 3 3 (\<lambda>i. 0) = (\<lambda>i. 0)(0 := 4294968591)"
  by (simp add: floorDust_def dustEdges_def stitch_def shuffle_def dustFill_def noise_def
        xorshift64s_def for_loop.simps Let_def upto.simps)

lemma opacity_1295: "opacity 1295 = 36"
proof -
  have "c_round (sqrt (real (1295::nat))) = 36" by (rule c_round_sqrt) simp_all
  then show ?thesis by (simp add: opacity_def)
qed

lemma floor_tile_alpha:
  "alphaAt (fst (prepareTile emptyAtlasState blankSurface 3 3 20 2 False)) 3 3 20 2 0 0 = 36"
  by (simp add: prepareTile_def emptyAtlasState_def blankSurface_def floorDust_3_3 convert_alt
      alphaAt_def pixelIndex_def pixelOf_def average_def isText_def processingOf_def
      TileProcessing_def for_loop.simps Let_def case_prod_beta opacity_1295)

lemma opacity_16256: "opacity 16256 = 127"
proof -
  have "c_round (sqrt (real (16256::nat))) = 127" by (rule c_round_sqrt) simp_all
  then show ?thesis by (simp add: opacity_def)
qed

lemma waveValue_origin: "waveValue tw th nh nv 0 0 = 4294983552"
proof -
  have "c_round (255 * 255 * (1 / 2) * (1 / 2)) = 16256" by (simp add: c_round_def)
  then show ?thesis by (simp add: waveValue_def Let_def)
qed

lemma wall_top_alpha:
  "(row = 16 \<and> column = 2 \<or> row = 21 \<and> column = 1 \<or> row = 22 \<and> column = 4) \<Longrightarrow>
   alphaAt (fst (prepareTile emptyAtlasState blankSurface 1 1 row column False)) 1 1 row column 0 0 = 127"
  by (auto simp add: prepareTile_def emptyAtlasState_def blankSurface_def convert_alt
      alphaAt_def pixelIndex_def pixelOf_def average_def isText_def processingOf_def
      TileProcessing_def for_loop.simps wallTops.simps c_div_def waveValue_origin
      Let_def case_prod_beta opacity_16256)

lemma pixelIndex_cong_w:
  "surf_w s1 = surf_w s2 \<Longrightarrow> pixelIndex s1 tw th row column = pixelIndex s2 tw th row column"
  by (intro ext) (simp add: pixelIndex_def)

lemma prepareTile_floor:
  assumes "tileEmpty st 20 2" "tileWidth > 2" "tileHeight > 2"
  shows "prepareTile st surface tileWidth tileHeight 20 2 False
      = (surface\<lparr>surf_pixels := fst (convert surface tileWidth tileHeight 20 2
            (processingOf 20 2) False (floorDust tileWidth tileHeight (\<lambda>i. 0)))\<rparr>,
         snd (convert surface tileWidth tileHeight 20 2
            (processingOf 20 2) False (floorDust tileWidth tileHeight (\<lambda>i. 0))))"
  using assms by (simp add: prepareTile_def Let_def case_prod_beta)

text \<open>
  C4. With the floor tile (row 20, column 2) empty and a destination tile more than 2
  pixels wide and high, the pixels a call with \<open>optimizing = false\<close> stores in the
  tile depend on the tile size alone: two calls store the same pixels, whatever the rest of
  the state and whatever the surface held before (the second call may well run on the
  surface the first one returned). The generator state is local to the call and starts
  from 1234567.
\<close>

theorem floor_dust_deterministic:
  assumes "tileEmpty st1 20 2" and "tileEmpty st2 20 2"
    and "surf_w surface1 = surf_w surface2"
    and "tileWidth > 2" and "tileHeight > 2"
    and "0 \<le> x" "x < tileWidth" "0 \<le> y" "y < tileHeight"
  shows "surf_pixels (fst (prepareTile st1 surface1 tileWidth tileHeight 20 2 False))
           (pixelIndex surface1 tileWidth tileHeight 20 2 x y)
       = surf_pixels (fst (prepareTile st2 surface2 tileWidth tileHeight 20 2 False))
           (pixelIndex surface2 tileWidth tileHeight 20 2 x y)"
proof -
  have "fst (convert surface1 tileWidth tileHeight 20 2 (processingOf 20 2) False
               (floorDust tileWidth tileHeight (\<lambda>i. 0)))
          (pixelIndex surface1 tileWidth tileHeight 20 2 x y)
      = fst (convert surface2 tileWidth tileHeight 20 2 (processingOf 20 2) False
               (floorDust tileWidth tileHeight (\<lambda>i. 0)))
          (pixelIndex surface1 tileWidth tileHeight 20 2 x y)"
    unfolding convert_alt pixelIndex_cong_w [OF assms(3)]
    by (rule store2_rel) (rule assms)+
  then show ?thesis
    by (simp add: prepareTile_floor assms(1,2,4,5) pixelIndex_cong_w [OF assms(3)])
qed

lemma noise_nonzero: "fst (noise state) \<noteq> 0"
proof -
  obtain r s where rs: "xorshift64s state = (r, s)" by (cases "xorshift64s state")
  have "unat (drop_bit 54 r) < 1024"
  proof -
    have "unat r < 2 ^ 64" using unsigned_less [of r, where 'a = nat] by simp
    then have "unat r div 2 ^ 54 < 1024" by simp
    then show ?thesis by (subst unat_drop_bit_eq) (simp add: drop_bit_eq_div)
  qed
  then have "unat (drop_bit 54 r + 0x100000280) = unat (drop_bit 54 r) + 0x100000280"
    by (simp add: unat_word_ariths)
  then have "unat (drop_bit 54 r + 0x100000280) \<noteq> 0" by simp
  then have "drop_bit 54 r + 0x100000280 \<noteq> 0" by (metis unat_0)
  then show ?thesis by (simp add: noise_def rs)
qed

lemma dust_step:
  assumes tw: "2 \<le> tileWidth"
    and inv: "\<forall>p. v0 p = 0 \<and> values p \<noteq> 0 \<longrightarrow> isolated tileWidth values p"
    and q: "isolated tileWidth values q"
    and n: "n \<noteq> 0"
  shows "\<forall>p. v0 p = 0 \<and> (values(q := n)) p \<noteq> 0 \<longrightarrow> isolated tileWidth (values(q := n)) p"
proof (intro allI impI)
  fix p assume p: "v0 p = 0 \<and> (values(q := n)) p \<noteq> 0"
  show "isolated tileWidth (values(q := n)) p"
  proof (cases "p = q")
    case True
    with q tw show ?thesis by (simp add: isolated_def)
  next
    case False
    with p inv have ip: "isolated tileWidth values p" and vp: "values p \<noteq> 0" by auto
    have far: "p + 1 \<noteq> q" "p - 1 \<noteq> q" "p + tileWidth \<noteq> q" "p + tileWidth + 1 \<noteq> q"
      "p + tileWidth - 1 \<noteq> q" "p - tileWidth \<noteq> q" "p - tileWidth + 1 \<noteq> q"
      "p - tileWidth - 1 \<noteq> q"
      using q vp unfolding isolated_def by auto
    with ip show ?thesis by (simp add: isolated_def)
  qed
qed

lemma dustFill_isolated:
  assumes tw: "2 \<le> tileWidth"
    and inv: "\<forall>p. v0 p = 0 \<and> fst vs p \<noteq> 0 \<longrightarrow> isolated tileWidth (fst vs) p"
  shows "\<forall>p. v0 p = 0 \<and> fst (dustFill w h tileWidth idx vs) p \<noteq> 0 \<longrightarrow>
           isolated tileWidth (fst (dustFill w h tileWidth idx vs)) p"
  unfolding dustFill_def
proof (rule for_loop_keeps [where Q = "\<lambda>s. \<forall>p. v0 p = 0 \<and> fst s p \<noteq> 0 \<longrightarrow> isolated tileWidth (fst s) p"])
  show "\<forall>p. v0 p = 0 \<and> fst vs p \<noteq> 0 \<longrightarrow> isolated tileWidth (fst vs) p" by (rule inv)
next
  fix j :: int and t :: "accumulator \<times> 64 word"
  assume Q: "\<forall>p. v0 p = 0 \<and> fst t p \<noteq> 0 \<longrightarrow> isolated tileWidth (fst t) p"
  obtain vals state where t: "t = (vals, state)" by (cases t)
  define q where "q = (1 + uint (idx ! nat j) mod w) + (1 + uint (idx ! nat j) div w) * tileWidth"
  have body: "(case t of (values, state) \<Rightarrow>
             let x = 1 + uint (idx ! nat j) mod w;
                 y = 1 + uint (idx ! nat j) div w;
                 p = x + y * tileWidth
             in if values (p + 1) = 0 \<and> values (p - 1) = 0 \<and> values (p + tileWidth) = 0 \<and>
                   values (p + tileWidth + 1) = 0 \<and> values (p + tileWidth - 1) = 0 \<and>
                   values (p - tileWidth) = 0 \<and> values (p - tileWidth + 1) = 0 \<and>
                   values (p - tileWidth - 1) = 0
                then let (v, state) = noise state in (values(p := v), state)
                else (values, state))
        = (if isolated tileWidth vals q then (vals(q := fst (noise state)), snd (noise state))
           else (vals, state))"
    by (simp add: t Let_def q_def isolated_def case_prod_beta)
  show "\<forall>p. v0 p = 0 \<and> fst (case t of (values, state) \<Rightarrow>
             let x = 1 + uint (idx ! nat j) mod w;
                 y = 1 + uint (idx ! nat j) div w;
                 p = x + y * tileWidth
             in if values (p + 1) = 0 \<and> values (p - 1) = 0 \<and> values (p + tileWidth) = 0 \<and>
                   values (p + tileWidth + 1) = 0 \<and> values (p + tileWidth - 1) = 0 \<and>
                   values (p - tileWidth) = 0 \<and> values (p - tileWidth + 1) = 0 \<and>
                   values (p - tileWidth - 1) = 0
                then let (v, state) = noise state in (values(p := v), state)
                else (values, state)) p \<noteq> 0 \<longrightarrow>
          isolated tileWidth (fst (case t of (values, state) \<Rightarrow>
             let x = 1 + uint (idx ! nat j) mod w;
                 y = 1 + uint (idx ! nat j) div w;
                 p = x + y * tileWidth
             in if values (p + 1) = 0 \<and> values (p - 1) = 0 \<and> values (p + tileWidth) = 0 \<and>
                   values (p + tileWidth + 1) = 0 \<and> values (p + tileWidth - 1) = 0 \<and>
                   values (p - tileWidth) = 0 \<and> values (p - tileWidth + 1) = 0 \<and>
                   values (p - tileWidth - 1) = 0
                then let (v, state) = noise state in (values(p := v), state)
                else (values, state))) p"
    unfolding body
  proof (cases "isolated tileWidth vals q")
    case True
    from dust_step [OF tw _ True noise_nonzero, of v0 state] Q
    show "\<forall>p. v0 p = 0 \<and> fst (if isolated tileWidth vals q
              then (vals(q := fst (noise state)), snd (noise state)) else (vals, state)) p \<noteq> 0 \<longrightarrow>
          isolated tileWidth (fst (if isolated tileWidth vals q
              then (vals(q := fst (noise state)), snd (noise state)) else (vals, state))) p"
      by (simp add: True t)
  next
    case False
    with Q show "\<forall>p. v0 p = 0 \<and> fst (if isolated tileWidth vals q
              then (vals(q := fst (noise state)), snd (noise state)) else (vals, state)) p \<noteq> 0 \<longrightarrow>
          isolated tileWidth (fst (if isolated tileWidth vals q
              then (vals(q := fst (noise state)), snd (noise state)) else (vals, state))) p"
      by (simp add: t)
  qed
qed

text \<open>
  C5. After the floor dust has been added, a pixel that was unlit after the edge loops
  and is lit now (it was lit by the interior fill) has no lit pixel among its eight
  neighbours, edge pixels included.
\<close>

theorem dust_specks_isolated:
  assumes "2 < tileWidth"
    and "fst (dustEdges tileWidth tileHeight values0) p = 0"
    and "floorDust tileWidth tileHeight values0 p \<noteq> 0"
  shows "isolated tileWidth (floorDust tileWidth tileHeight values0) p"
proof -
  obtain vals state where e: "dustEdges tileWidth tileHeight values0 = (vals, state)"
    by (cases "dustEdges tileWidth tileHeight values0")
  obtain idx state' where sh: "shuffle ((tileWidth - 2) * (tileHeight - 2))
      (map word_of_int [0..(tileWidth - 2) * (tileHeight - 2) - 1], state) = (idx, state')"
    by (cases "shuffle ((tileWidth - 2) * (tileHeight - 2))
      (map word_of_int [0..(tileWidth - 2) * (tileHeight - 2) - 1], state)")
  have fd: "floorDust tileWidth tileHeight values0
      = fst (dustFill (tileWidth - 2) (tileHeight - 2) tileWidth idx (vals, state'))"
    by (simp add: floorDust_def Let_def e sh)
  have "\<forall>p. vals p = 0 \<and> fst (dustFill (tileWidth - 2) (tileHeight - 2) tileWidth idx (vals, state')) p \<noteq> 0 \<longrightarrow>
           isolated tileWidth (fst (dustFill (tileWidth - 2) (tileHeight - 2) tileWidth idx (vals, state'))) p"
    by (rule dustFill_isolated) (use assms(1) in auto)
  with assms(2,3) show ?thesis unfolding fd e by simp
qed


theorem dust_specks_isolated_witness:
  "(2::int) < 4 \<and> fst (dustEdges 4 4 (\<lambda>i. 0)) 9 = 0
   \<and> floorDust 4 4 (\<lambda>i. 0) 9 = 4294968363
   \<and> isolated 4 (floorDust 4 4 (\<lambda>i. 0)) 9"
proof -
  have e: "fst (dustEdges 4 4 (\<lambda>i. 0)) 9 = 0"
    by (simp add: dustEdges_def stitch_def noise_def xorshift64s_def for_loop.simps Let_def)
  have f: "floorDust 4 4 (\<lambda>i. 0) 9 = 4294968363"
    by (simp add: floorDust_def dustEdges_def stitch_def shuffle_def dustFill_def noise_def
        xorshift64s_def for_loop.simps Let_def upto.simps)
  have l: "(2::int) < 4" by simp
  have n: "floorDust 4 4 (\<lambda>i. 0) 9 \<noteq> 0" unfolding f by simp
  from dust_specks_isolated [OF l e n] e f show ?thesis by simp
qed

theorem empty_tile_transparent_witness:
  "tileEmpty emptyAtlasState 0 0
   \<and> alphaAt (fst (prepareTile emptyAtlasState blankSurface 3 3 0 0 False)) 3 3 0 0 1 1 = 0"
proof -
  have e: "tileEmpty emptyAtlasState 0 0" by (simp add: emptyAtlasState_def)
  from empty_tile_transparent [OF e, of 3 3 1 1 blankSurface] e show ?thesis by simp
qed

text \<open>
  C1 as stated allows three exceptions; the code has four. With every tile empty, the
  floor tile rendered at 3 by 3 pixels and each of the three wall tops rendered at 1 by 1
  pixel have a first pixel that is not transparent.
\<close>

theorem four_procedural_tiles_counterexample:
  "tileEmpty emptyAtlasState 20 2 \<and> tileEmpty emptyAtlasState 16 2
   \<and> tileEmpty emptyAtlasState 21 1 \<and> tileEmpty emptyAtlasState 22 4
   \<and> alphaAt (fst (prepareTile emptyAtlasState blankSurface 3 3 20 2 False)) 3 3 20 2 0 0 = 36
   \<and> alphaAt (fst (prepareTile emptyAtlasState blankSurface 1 1 16 2 False)) 1 1 16 2 0 0 = 127
   \<and> alphaAt (fst (prepareTile emptyAtlasState blankSurface 1 1 21 1 False)) 1 1 21 1 0 0 = 127
   \<and> alphaAt (fst (prepareTile emptyAtlasState blankSurface 1 1 22 4 False)) 1 1 22 4 0 0 = 127"
  using floor_tile_alpha wall_top_alpha [of 16 2] wall_top_alpha [of 21 1] wall_top_alpha [of 22 4]
  by (simp add: emptyAtlasState_def)

theorem floor_dust_deterministic_witness:
  "tileEmpty emptyAtlasState 20 2
   \<and> surf_w (fst (prepareTile emptyAtlasState blankSurface 3 3 20 2 False)) = surf_w blankSurface
   \<and> (3::int) > 2
   \<and> surf_pixels (fst (prepareTile emptyAtlasState
          (fst (prepareTile emptyAtlasState blankSurface 3 3 20 2 False)) 3 3 20 2 False))
        (pixelIndex (fst (prepareTile emptyAtlasState blankSurface 3 3 20 2 False)) 3 3 20 2 0 0)
      = surf_pixels (fst (prepareTile emptyAtlasState blankSurface 3 3 20 2 False))
          (pixelIndex blankSurface 3 3 20 2 0 0)"
proof -
  have e: "tileEmpty emptyAtlasState 20 2" by (simp add: emptyAtlasState_def)
  have w: "surf_w (fst (prepareTile emptyAtlasState blankSurface 3 3 20 2 False)) = surf_w blankSurface"
    by (simp add: prepareTile_floor e)
  have l: "(3::int) > 2" by simp
  from floor_dust_deterministic [OF e e w l l, of 0 0] e w l show ?thesis by simp
qed


subsection \<open>The search of the shift optimizer\<close>

lemma searchShift_minimal:
  fixes blurOf :: "shift_table \<Rightarrow> real"
  assumes D: "\<And>t c c'. derive ((derive (t[pos := c']))[pos := c]) = derive (t[pos := c])"
    and B: "blurOf (derive (shifts[pos := word_of_int (midShift - 5)])) < 10 ^ 20"
  shows "\<exists>best. midShift - 5 \<le> best \<and> best \<le> midShift + 5
           \<and> searchShift blurOf derive pos midShift shifts = derive (shifts[pos := word_of_int best])
           \<and> (\<forall>c. midShift - 5 \<le> c \<and> c \<le> midShift + 5 \<longrightarrow>
                 blurOf (derive (shifts[pos := word_of_int best]))
                   \<le> blurOf (derive (shifts[pos := word_of_int c])))
           \<and> (\<forall>c. midShift - 5 \<le> c \<and> c < best \<longrightarrow>
                 blurOf (derive (shifts[pos := word_of_int best]))
                   < blurOf (derive (shifts[pos := word_of_int c])))"
proof -
  define T where "T = (\<lambda>c::int. derive (shifts[pos := word_of_int c]))"
  define body where "body = (\<lambda>(shift::int) (s :: shift_table \<times> real \<times> int).
      case s of (shifts, bestResult, bestShift) \<Rightarrow>
                let shifts = derive (shifts[pos := word_of_int shift]);
                    blur = blurOf shifts
                in if blur < bestResult then (shifts, blur, shift)
                   else (shifts, bestResult, bestShift))"
  define P where "P = (\<lambda>(j::int) (s :: shift_table \<times> real \<times> int).
      case s of (cur, bestResult, bestShift) \<Rightarrow>
        (if j = midShift - 5 then cur = shifts \<and> bestResult = 10 ^ 20
         else cur = T (j - 1) \<and> midShift - 5 \<le> bestShift \<and> bestShift < j
              \<and> bestResult = blurOf (T bestShift)
              \<and> (\<forall>c. midShift - 5 \<le> c \<and> c < j \<longrightarrow> bestResult \<le> blurOf (T c))
              \<and> (\<forall>c. midShift - 5 \<le> c \<and> c < bestShift \<longrightarrow> bestResult < blurOf (T c))))"
  have step: "P (j + 1) (body j s)" if j: "midShift - 5 \<le> j" "j < midShift + 5 + 1" and Pj: "P j s"
    for j s
  proof -
    obtain cur bestResult bestShift where s: "s = (cur, bestResult, bestShift)" by (cases s)
    have cur': "derive (cur[pos := word_of_int j]) = T j"
    proof (cases "j = midShift - 5")
      case True
      with Pj show ?thesis by (simp add: P_def s T_def)
    next
      case False
      with Pj have "cur = T (j - 1)" by (simp add: P_def s)
      then show ?thesis unfolding T_def by (simp add: D)
    qed
    have bj: "body j s = (if blurOf (T j) < bestResult then (T j, blurOf (T j), j)
                          else (T j, bestResult, bestShift))"
      unfolding body_def s by (simp only: prod.case Let_def cur')
    show ?thesis
    proof (cases "j = midShift - 5")
      case True
      with Pj have br: "bestResult = 10 ^ 20" by (simp add: P_def s)
      have lt: "blurOf (T j) < bestResult" using B br unfolding T_def True by simp
      have ne: "j + 1 \<noteq> midShift - 5" using j by simp
      have a: "\<forall>c. midShift - 5 \<le> c \<and> c < j + 1 \<longrightarrow> blurOf (T j) \<le> blurOf (T c)"
      proof (intro allI impI)
        fix c assume "midShift - 5 \<le> c \<and> c < j + 1"
        then have "c = j" using True by linarith
        then show "blurOf (T j) \<le> blurOf (T c)" by simp
      qed
      have b: "\<forall>c. midShift - 5 \<le> c \<and> c < j \<longrightarrow> blurOf (T j) < blurOf (T c)"
        using True by auto
      have "P (j + 1) (T j, blurOf (T j), j)"
        unfolding P_def using ne j a b by simp
      then show ?thesis unfolding bj using lt by simp
    next
      case False
      with Pj have "cur = T (j - 1) \<and> midShift - 5 \<le> bestShift \<and> bestShift < j
              \<and> bestResult = blurOf (T bestShift)
              \<and> (\<forall>c. midShift - 5 \<le> c \<and> c < j \<longrightarrow> bestResult \<le> blurOf (T c))
              \<and> (\<forall>c. midShift - 5 \<le> c \<and> c < bestShift \<longrightarrow> bestResult < blurOf (T c))"
        by (auto simp add: P_def s)
      then have inv: "midShift - 5 \<le> bestShift" "bestShift < j"
        "bestResult = blurOf (T bestShift)"
        "\<forall>c. midShift - 5 \<le> c \<and> c < j \<longrightarrow> bestResult \<le> blurOf (T c)"
        "\<forall>c. midShift - 5 \<le> c \<and> c < bestShift \<longrightarrow> bestResult < blurOf (T c)"
        by blast+
      have ne: "j + 1 \<noteq> midShift - 5" using j by simp
      show ?thesis
      proof (cases "blurOf (T j) < bestResult")
        case True
        have a: "\<forall>c. midShift - 5 \<le> c \<and> c < j + 1 \<longrightarrow> blurOf (T j) \<le> blurOf (T c)"
        proof (intro allI impI)
          fix c assume c: "midShift - 5 \<le> c \<and> c < j + 1"
          then have "c < j \<or> c = j" by linarith
          then show "blurOf (T j) \<le> blurOf (T c)"
          proof
            assume "c < j" with inv(4) c True show ?thesis by force
          next
            assume "c = j" then show ?thesis by simp
          qed
        qed
        have b: "\<forall>c. midShift - 5 \<le> c \<and> c < j \<longrightarrow> blurOf (T j) < blurOf (T c)"
          using inv(4) True by force
        have "P (j + 1) (T j, blurOf (T j), j)"
          unfolding P_def using ne j a b by simp
        then show ?thesis unfolding bj using True by simp
      next
        case F: False
        have a: "\<forall>c. midShift - 5 \<le> c \<and> c < j + 1 \<longrightarrow> bestResult \<le> blurOf (T c)"
        proof (intro allI impI)
          fix c assume c: "midShift - 5 \<le> c \<and> c < j + 1"
          then have "c < j \<or> c = j" by linarith
          then show "bestResult \<le> blurOf (T c)"
          proof
            assume "c < j" with inv(4) c show ?thesis by force
          next
            assume "c = j" then show ?thesis using F by simp
          qed
        qed
        have "P (j + 1) (T j, bestResult, bestShift)"
          unfolding P_def using ne inv a by simp
        then show ?thesis unfolding bj using F by simp
      qed
    qed
  qed
  have "P (midShift + 5 + 1) (for_loop (midShift - 5) (midShift + 5 + 1) 1 body (shifts, 10 ^ 20, 0))"
  proof (rule for_loop_inv [where P = P])
    show "P (midShift - 5) (shifts, 10 ^ 20, 0)" by (simp add: P_def)
    show "midShift - 5 \<le> midShift + 5 + 1" by simp
  qed (rule step)
  moreover obtain cur bestResult bestShift where
    r: "for_loop (midShift - 5) (midShift + 5 + 1) 1 body (shifts, 10 ^ 20, 0) = (cur, bestResult, bestShift)"
    by (cases "for_loop (midShift - 5) (midShift + 5 + 1) 1 body (shifts, 10 ^ 20, 0)")
  ultimately have "P (midShift + 5 + 1) (cur, bestResult, bestShift)" by simp
  moreover have "midShift + 5 + 1 \<noteq> midShift - 5" by simp
  ultimately have "cur = T (midShift + 5 + 1 - 1) \<and> midShift - 5 \<le> bestShift
              \<and> bestShift < midShift + 5 + 1
              \<and> bestResult = blurOf (T bestShift)
              \<and> (\<forall>c. midShift - 5 \<le> c \<and> c < midShift + 5 + 1 \<longrightarrow> bestResult \<le> blurOf (T c))
              \<and> (\<forall>c. midShift - 5 \<le> c \<and> c < bestShift \<longrightarrow> bestResult < blurOf (T c))"
    by (auto simp add: P_def)
  then have fin: "cur = T (midShift + 5 + 1 - 1)" "midShift - 5 \<le> bestShift" "bestShift < midShift + 5 + 1"
        "bestResult = blurOf (T bestShift)"
        "\<forall>c. midShift - 5 \<le> c \<and> c < midShift + 5 + 1 \<longrightarrow> bestResult \<le> blurOf (T c)"
        "\<forall>c. midShift - 5 \<le> c \<and> c < bestShift \<longrightarrow> bestResult < blurOf (T c)"
    by blast+
  have res: "searchShift blurOf derive pos midShift shifts = T bestShift"
    unfolding searchShift_def body_def [symmetric] r
    unfolding fin(1) T_def by (simp only: prod.case D)
  show ?thesis
  proof (intro exI [of _ bestShift] conjI)
    show "midShift - 5 \<le> bestShift" by (rule fin(2))
    show "bestShift \<le> midShift + 5" using fin(3) by simp
    show "searchShift blurOf derive pos midShift shifts = derive (shifts[pos := word_of_int bestShift])"
      using res unfolding T_def .
    show "\<forall>c. midShift - 5 \<le> c \<and> c \<le> midShift + 5 \<longrightarrow>
         blurOf (derive (shifts[pos := word_of_int bestShift])) \<le> blurOf (derive (shifts[pos := word_of_int c]))"
      using fin(4,5) unfolding T_def by force
    show "\<forall>c. midShift - 5 \<le> c \<and> c < bestShift \<longrightarrow>
         blurOf (derive (shifts[pos := word_of_int bestShift])) < blurOf (derive (shifts[pos := word_of_int c]))"
      using fin(4,6) unfolding T_def by force
  qed
qed




lemma derive_id_absorbs: "(t[pos := c'])[pos := c] = t[pos := c]"
  by simp




subsection \<open>What the shift optimizer leaves alone\<close>

lemma searchShift_length:
  fixes blurOf :: "shift_table \<Rightarrow> real"
  assumes L: "\<And>t. length (derive t) = length t"
  shows "length (searchShift blurOf derive pos midShift shifts) = length shifts"
proof -
  define body where "body = (\<lambda>(shift::int) (s :: shift_table \<times> real \<times> int).
      case s of (shifts, bestResult, bestShift) \<Rightarrow>
                let shifts = derive (shifts[pos := word_of_int shift]);
                    blur = blurOf shifts
                in if blur < bestResult then (shifts, blur, shift)
                   else (shifts, bestResult, bestShift))"
  have "length (fst (for_loop (midShift - 5) (midShift + 5 + 1) 1 body (shifts, 10 ^ 20, 0))) = length shifts"
  proof (rule for_loop_keeps [where Q = "\<lambda>s. length (fst s) = length shifts"])
    show "length (fst (shifts, (10::real) ^ 20, 0::int)) = length shifts" by simp
  next
    fix j :: int and t :: "shift_table \<times> real \<times> int"
    assume "length (fst t) = length shifts"
    then show "length (fst (body j t)) = length shifts"
      by (cases t) (simp add: body_def Let_def L)
  qed
  then show ?thesis
    unfolding searchShift_def body_def [symmetric]
    by (simp add: case_prod_beta L)
qed

lemma searchShift_frame:
  fixes blurOf :: "shift_table \<Rightarrow> real"
  assumes F: "\<And>t i. i \<notin> A \<Longrightarrow> derive t ! i = t ! i"
    and i: "i \<notin> A" "i \<noteq> pos"
  shows "searchShift blurOf derive pos midShift shifts ! i = shifts ! i"
proof -
  define body where "body = (\<lambda>(shift::int) (s :: shift_table \<times> real \<times> int).
      case s of (shifts, bestResult, bestShift) \<Rightarrow>
                let shifts = derive (shifts[pos := word_of_int shift]);
                    blur = blurOf shifts
                in if blur < bestResult then (shifts, blur, shift)
                   else (shifts, bestResult, bestShift))"
  have upd: "derive (t[pos := c]) ! i = t ! i" for t c
    using F [OF i(1), of "t[pos := c]"] i(2) by simp
  have "fst (for_loop (midShift - 5) (midShift + 5 + 1) 1 body (shifts, 10 ^ 20, 0)) ! i = shifts ! i"
  proof (rule for_loop_keeps [where Q = "\<lambda>s. fst s ! i = shifts ! i"])
    show "fst (shifts, (10::real) ^ 20, 0::int) ! i = shifts ! i" by simp
  next
    fix j :: int and t :: "shift_table \<times> real \<times> int"
    assume "fst t ! i = shifts ! i"
    then show "fst (body j t) ! i = shifts ! i"
      by (cases t) (simp add: body_def Let_def upd)
  qed
  then show ?thesis
    unfolding searchShift_def body_def [symmetric]
    by (simp add: case_prod_beta upd)
qed

lemma deriveMiddle_frame: "i \<notin> {base + 2} \<Longrightarrow> deriveMiddle base t ! i = t ! i"
  by (simp add: deriveMiddle_def)

lemma optimizeStep_frame:
  assumes "i \<noteq> base" "i \<noteq> base + 1" "i \<noteq> base + 2" and "0 \<le> idx" "idx < 3"
  shows "tileShifts (optimizeStep st row column axis base idx) ! i = tileShifts st ! i"
proof -
  have p: "i \<noteq> base + nat idx" using assms by auto
  show ?thesis
  proof (cases "axis = 0 \<and> isText (processingOf row column)")
    case True
    have "searchShift (calibrationBlur st row column) (deriveMiddle base) (base + nat idx)
            (midShiftOf (tileShifts st) base idx) (tileShifts st) ! i = tileShifts st ! i"
      by (rule searchShift_frame [where A = "{base + 2}"]) (use assms p in \<open>simp_all add: deriveMiddle_frame\<close>)
    with True show ?thesis by (simp add: optimizeStep_def Let_def)
  next
    case False
    have "searchShift (calibrationBlur st row column) (\<lambda>shifts. shifts) (base + nat idx)
            (midShiftOf (tileShifts st) base idx) (tileShifts st) ! i = tileShifts st ! i"
      by (rule searchShift_frame [where A = "{}"]) (use p in simp_all)
    with False show ?thesis by (auto simp add: optimizeStep_def Let_def)
  qed
qed

lemma optimizeStep_fields:
  "sameAtlas (optimizeStep st row column axis base idx) st
   \<and> baseTileWidth (optimizeStep st row column axis base idx) = baseTileWidth st
   \<and> baseTileHeight (optimizeStep st row column axis base idx) = baseTileHeight st"
  by (simp add: optimizeStep_def Let_def sameAtlas_def searchShift_length deriveMiddle_def)

lemma sameAtlas_refl [simp]: "sameAtlas s s"
  by (simp add: sameAtlas_def)

lemma sameAtlas_trans: "sameAtlas s t \<Longrightarrow> sameAtlas t u \<Longrightarrow> sameAtlas s u"
  by (simp add: sameAtlas_def)

lemma sameAtlas_base [simp]:
  "sameAtlas (s\<lparr>baseTileWidth := w\<rparr>) t = sameAtlas s t"
  "sameAtlas (s\<lparr>baseTileHeight := h\<rparr>) t = sameAtlas s t"
  by (simp_all add: sameAtlas_def)

lemma optimizeSize_frame:
  assumes "i \<noteq> base" "i \<noteq> base + 1" "i \<noteq> base + 2"
  shows "tileShifts (optimizeSize st row column axis base) ! i = tileShifts st ! i
         \<and> sameAtlas (optimizeSize st row column axis base) st"
proof -
  define n where "n = (if axis = 0 then (if isText (processingOf row column) then 2 else 3)
               else (if processingOf row column = CHR ''t'' then 1 else (3::int)))"
  have n: "n \<le> 3" by (simp add: n_def)
  define Q where "Q = (\<lambda>s :: tiles_state. tileShifts s ! i = tileShifts st ! i \<and> sameAtlas s st)"
  have "Q (for_loop 0 3 1 (\<lambda>i. for_loop 0 n 1 (\<lambda>idx st. optimizeStep st row column axis base idx)) st)"
  proof (rule for_loop_keeps [where Q = Q])
    show "Q st" by (simp add: Q_def)
  next
    fix j :: int and t :: tiles_state
    assume Qt: "Q t"
    show "Q (for_loop 0 n 1 (\<lambda>idx st. optimizeStep st row column axis base idx) t)"
    proof (rule for_loop_keeps [where Q = Q])
      show "Q t" by (rule Qt)
    next
      fix idx :: int and u :: tiles_state
      assume idx: "0 \<le> idx" "idx < n" and Qu: "Q u"
      have "tileShifts (optimizeStep u row column axis base idx) ! i = tileShifts u ! i"
        by (rule optimizeStep_frame) (use assms idx n in auto)
      with Qu show "Q (optimizeStep u row column axis base idx)"
        using optimizeStep_fields [of u row column axis base idx]
        by (auto simp add: Q_def intro: sameAtlas_trans)
    qed
  qed
  then show ?thesis unfolding Q_def optimizeSize_def Let_def n_def by simp
qed

text \<open>The addresses of the entries of a tile.\<close>

lemma shiftsOffset_block:
  assumes "0 \<le> row" "0 \<le> column" "0 \<le> axis" "axis \<le> 1" "0 \<le> sz" "sz < 64"
  shows "shiftsOffset row column axis sz = nat (row * 16 + column) * 384 + nat axis * 192 + nat sz * 3"
proof -
  have "0 \<le> (((row * 16 + column) * 2 + axis) * 64 + sz) * 3" using assms by simp
  then show ?thesis
    unfolding shiftsOffset_def TILE_COLS_def MAX_TILE_SIZE_def
    using assms by (simp add: nat_add_distrib nat_mult_distrib algebra_simps)
qed

lemma optimizeTile_frame:
  assumes rc: "0 \<le> row" "0 \<le> column"
    and i: "i < nat (row * 16 + column) * 384 \<or> nat (row * 16 + column) * 384 + 384 \<le> i"
  shows "tileShifts (optimizeTile st row column) ! i = tileShifts st ! i
         \<and> sameAtlas (optimizeTile st row column) st"
proof -
  define Q where "Q = (\<lambda>s :: tiles_state. tileShifts s ! i = tileShifts st ! i \<and> sameAtlas s st)"
  have out: "i \<noteq> shiftsOffset row column axis (w - 1) \<and> i \<noteq> shiftsOffset row column axis (w - 1) + 1
      \<and> i \<noteq> shiftsOffset row column axis (w - 1) + 2"
    if "0 \<le> axis" "axis \<le> 1" "1 \<le> w" "w \<le> 64" for axis w
  proof -
    have "shiftsOffset row column axis (w - 1)
        = nat (row * 16 + column) * 384 + nat axis * 192 + nat (w - 1) * 3"
      by (rule shiftsOffset_block) (use rc that in auto)
    moreover have "nat axis * 192 + nat (w - 1) * 3 + 2 < 384" using that by auto
    ultimately show ?thesis using i by auto
  qed
  have step: "Q (optimizeSize t row column axis (shiftsOffset row column axis (w - 1)))"
    if "Q t" "0 \<le> axis" "axis \<le> 1" "1 \<le> w" "w \<le> 64" for t axis w
    using optimizeSize_frame [of i "shiftsOffset row column axis (w - 1)" t row column axis]
      out [OF that(2-5)] that(1) by (auto simp add: Q_def intro: sameAtlas_trans)
  have 1: "Q (st\<lparr>baseTileHeight := MAX_TILE_SIZE\<rparr>)" by (simp add: Q_def)
  have 2: "Q (for_loop 5 (MAX_TILE_SIZE + 1) 1 (\<lambda>width st.
                 optimizeSize (st\<lparr>baseTileWidth := width\<rparr>) row column 0
                   (shiftsOffset row column 0 (width - 1))) (st\<lparr>baseTileHeight := MAX_TILE_SIZE\<rparr>))"
  proof (rule for_loop_keeps [where Q = Q])
    show "Q (st\<lparr>baseTileHeight := MAX_TILE_SIZE\<rparr>)" by (rule 1)
  next
    fix w :: int and t :: tiles_state
    assume w: "5 \<le> w" "w < MAX_TILE_SIZE + 1" and Qt: "Q t"
    have "Q (t\<lparr>baseTileWidth := w\<rparr>)" using Qt by (simp add: Q_def)
    then show "Q (optimizeSize (t\<lparr>baseTileWidth := w\<rparr>) row column 0 (shiftsOffset row column 0 (w - 1)))"
      by (rule step) (use w in \<open>simp_all add: MAX_TILE_SIZE_def\<close>)
  qed
  define s2 where "s2 = for_loop 5 (MAX_TILE_SIZE + 1) 1 (\<lambda>width st.
                 optimizeSize (st\<lparr>baseTileWidth := width\<rparr>) row column 0
                   (shiftsOffset row column 0 (width - 1))) (st\<lparr>baseTileHeight := MAX_TILE_SIZE\<rparr>)"
  have 3: "Q (s2\<lparr>baseTileWidth := MAX_TILE_SIZE\<rparr>)" using 2 by (simp add: Q_def s2_def)
  have 4: "Q (for_loop 7 (MAX_TILE_SIZE + 1) 1 (\<lambda>height st.
                 optimizeSize (st\<lparr>baseTileHeight := height\<rparr>) row column 1
                   (shiftsOffset row column 1 (height - 1))) (s2\<lparr>baseTileWidth := MAX_TILE_SIZE\<rparr>))"
  proof (rule for_loop_keeps [where Q = Q])
    show "Q (s2\<lparr>baseTileWidth := MAX_TILE_SIZE\<rparr>)" by (rule 3)
  next
    fix h :: int and t :: tiles_state
    assume h: "7 \<le> h" "h < MAX_TILE_SIZE + 1" and Qt: "Q t"
    have "Q (t\<lparr>baseTileHeight := h\<rparr>)" using Qt by (simp add: Q_def)
    then show "Q (optimizeSize (t\<lparr>baseTileHeight := h\<rparr>) row column 1 (shiftsOffset row column 1 (h - 1)))"
      by (rule step) (use h in \<open>simp_all add: MAX_TILE_SIZE_def\<close>)
  qed
  then show ?thesis
    unfolding optimizeTile_def Let_def s2_def [symmetric] Q_def by simp
qed

lemma optimizeTile_other:
  assumes r: "0 \<le> r" "0 \<le> c" "c < 16" and rc: "0 \<le> row" "0 \<le> column" "column < 16"
    and ne: "\<not> (r = row \<and> c = column)"
    and lo: "nat (row * 16 + column) * 384 \<le> i" and hi: "i < nat (row * 16 + column) * 384 + 384"
  shows "tileShifts (optimizeTile u r c) ! i = tileShifts u ! i
         \<and> sameAtlas (optimizeTile u r c) u"
proof -
  have "r * 16 + c \<noteq> row * 16 + column"
  proof
    assume eq: "r * 16 + c = row * 16 + column"
    with r rc have "r = row \<and> c = column" by presburger
    with ne show False by simp
  qed
  then have "nat (r * 16 + c) \<noteq> nat (row * 16 + column)"
    using r rc by auto
  then have "nat (r * 16 + c) < nat (row * 16 + column) \<or> nat (row * 16 + column) < nat (r * 16 + c)"
    by auto
  then have "i < nat (r * 16 + c) * 384 \<or> nat (r * 16 + c) * 384 + 384 \<le> i"
    using lo hi by auto
  from optimizeTile_frame [OF r(1) r(2) this, of u] show ?thesis .
qed

text \<open>
  C7, as the code has it. optimizeTiles skips a tile when its empty flag is set, whatever
  its processing mode: it runs no search for it and leaves every shift entry of the tile
  as it was (zero, when the table starts zeroed). A tile that is not empty is searched,
  stretch tiles included.
\<close>

theorem optimizeTiles_skips_empty_tiles:
  assumes e: "tileEmpty st row column"
    and rc: "0 \<le> row" "row < TILE_ROWS" "0 \<le> column" "column < TILE_COLS"
    and a: "axis = 0 \<or> axis = 1" and sz: "0 \<le> sz" "sz < MAX_TILE_SIZE" and k: "k < 3"
  shows "tileShifts (optimizeTiles st) ! (shiftsOffset row column axis sz + k)
           = tileShifts st ! (shiftsOffset row column axis sz + k)"
proof -
  define i where "i = shiftsOffset row column axis sz + k"
  have io: "i = nat (row * 16 + column) * 384 + nat axis * 192 + nat sz * 3 + k"
    unfolding i_def using shiftsOffset_block [of row column axis sz] rc a sz
    by (auto simp: MAX_TILE_SIZE_def)
  have lo: "nat (row * 16 + column) * 384 \<le> i" using io by simp
  have hi: "i < nat (row * 16 + column) * 384 + 384"
    using io a sz k by (auto simp: MAX_TILE_SIZE_def)
  define Q where "Q = (\<lambda>s :: tiles_state. tileShifts s ! i = tileShifts st ! i \<and> sameAtlas s st)"
  have "Q (for_loop 0 TILE_ROWS 1 (\<lambda>row.
       for_loop 0 TILE_COLS 1 (\<lambda>column st.
         if tileEmpty st row column then st else optimizeTile st row column)) st)"
  proof (rule for_loop_keeps [where Q = Q])
    show "Q st" by (simp add: Q_def)
  next
    fix r :: int and t :: tiles_state
    assume r: "0 \<le> r" "r < TILE_ROWS" and Qt: "Q t"
    show "Q (for_loop 0 TILE_COLS 1 (\<lambda>column st.
         if tileEmpty st r column then st else optimizeTile st r column) t)"
    proof (rule for_loop_keeps [where Q = Q])
      show "Q t" by (rule Qt)
    next
      fix c :: int and u :: tiles_state
      assume c: "0 \<le> c" "c < TILE_COLS" and Qu: "Q u"
      show "Q (if tileEmpty u r c then u else optimizeTile u r c)"
      proof (cases "tileEmpty u r c")
        case True
        with Qu show ?thesis by simp
      next
        case False
        with Qu e have ne: "\<not> (r = row \<and> c = column)" by (auto simp: Q_def sameAtlas_def)
        have "c < 16" "column < 16" using c rc by (simp_all add: TILE_COLS_def)
        from optimizeTile_other [OF r(1) c(1) this(1) rc(1) rc(3) this(2) ne lo hi, of u] Qu False
        show ?thesis by (auto simp add: Q_def intro: sameAtlas_trans)
      qed
    qed
  qed
  then show ?thesis unfolding Q_def optimizeTiles_def i_def by simp
qed

theorem optimizeTiles_skips_empty_tiles_witness:
  "tileEmpty emptyAtlasState 0 0
   \<and> tileShifts (optimizeTiles emptyAtlasState) ! (shiftsOffset 0 0 0 0 + 0)
       = tileShifts emptyAtlasState ! (shiftsOffset 0 0 0 0 + 0)"
  using optimizeTiles_skips_empty_tiles [of emptyAtlasState 0 0 0 0 0]
  by (simp add: emptyAtlasState_def TILE_ROWS_def TILE_COLS_def MAX_TILE_SIZE_def)

subsection \<open>Text alignment\<close>

lemma optimizeStep_frame_untied:
  assumes u: "\<not> (axis = 0 \<and> isText (processingOf row column))" and p: "i \<noteq> base + nat idx"
  shows "tileShifts (optimizeStep st row column axis base idx) ! i = tileShifts st ! i"
proof -
  have "searchShift (calibrationBlur st row column) (\<lambda>shifts. shifts) (base + nat idx)
          (midShiftOf (tileShifts st) base idx) (tileShifts st) ! i = tileShifts st ! i"
    by (rule searchShift_frame [where A = "{}"]) (use p in simp_all)
  with u show ?thesis by (auto simp add: optimizeStep_def Let_def)
qed

lemma optimizeSize_text_vertical_frame:
  assumes t: "processingOf row column = CHR ''t''" and i: "i \<noteq> base"
  shows "tileShifts (optimizeSize st row column 1 base) ! i = tileShifts st ! i"
proof -
  define Q where "Q = (\<lambda>s :: tiles_state. tileShifts s ! i = tileShifts st ! i)"
  have "Q (for_loop 0 3 1 (\<lambda>i. for_loop 0 1 1 (\<lambda>idx st. optimizeStep st row column 1 base idx)) st)"
  proof (rule for_loop_keeps [where Q = Q])
    show "Q st" by (simp add: Q_def)
  next
    fix j :: int and t :: tiles_state
    assume Qt: "Q t"
    show "Q (for_loop 0 1 1 (\<lambda>idx st. optimizeStep st row column 1 base idx) t)"
    proof (rule for_loop_keeps [where Q = Q])
      show "Q t" by (rule Qt)
    next
      fix idx :: int and u :: tiles_state
      assume idx: "0 \<le> idx" "idx < 1" and Qu: "Q u"
      have "idx = 0" using idx by simp
      then have "tileShifts (optimizeStep u row column 1 base idx) ! i = tileShifts u ! i"
        using optimizeStep_frame_untied [of 1 row column i base idx u] i by simp
      with Qu show "Q (optimizeStep u row column 1 base idx)" by (simp add: Q_def)
    qed
  qed
  then show ?thesis unfolding Q_def optimizeSize_def Let_def using t by simp
qed

lemma optimizeTile_text_frame:
  assumes t: "processingOf row column = CHR ''t''"
    and rc: "0 \<le> row" "0 \<le> column"
    and g: "1 \<le> g" "g \<le> 64" and k: "k = 1 \<or> k = 2"
  shows "tileShifts (optimizeTile st row column) ! (shiftsOffset row column 1 (g - 1) + k)
           = tileShifts st ! (shiftsOffset row column 1 (g - 1) + k)"
proof -
  define i where "i = shiftsOffset row column 1 (g - 1) + k"
  have io: "i = nat (row * 16 + column) * 384 + 192 + nat (g - 1) * 3 + k"
    unfolding i_def using shiftsOffset_block [of row column 1 "g - 1"] rc g by simp
  define Q where "Q = (\<lambda>s :: tiles_state. tileShifts s ! i = tileShifts st ! i)"
  have outW: "i \<noteq> shiftsOffset row column 0 (w - 1) \<and> i \<noteq> shiftsOffset row column 0 (w - 1) + 1
      \<and> i \<noteq> shiftsOffset row column 0 (w - 1) + 2"
    if "1 \<le> w" "w \<le> 64" for w
  proof -
    have "shiftsOffset row column 0 (w - 1) = nat (row * 16 + column) * 384 + nat 0 * 192 + nat (w - 1) * 3"
      by (rule shiftsOffset_block) (use rc that in auto)
    moreover have "nat (w - 1) * 3 + 2 < 192" using that by auto
    ultimately show ?thesis using io by auto
  qed
  have outH: "i \<noteq> shiftsOffset row column 1 (h - 1)" if "1 \<le> h" "h \<le> 64" for h
  proof -
    have "shiftsOffset row column 1 (h - 1) = nat (row * 16 + column) * 384 + nat 1 * 192 + nat (h - 1) * 3"
      by (rule shiftsOffset_block) (use rc that in auto)
    moreover have "nat (g - 1) * 3 + k \<noteq> nat (h - 1) * 3"
    proof
      assume "nat (g - 1) * 3 + k = nat (h - 1) * 3"
      then have "(nat (g - 1) * 3 + k) mod 3 = (nat (h - 1) * 3) mod 3" by simp
      then show False using k by auto
    qed
    ultimately show ?thesis using io by auto
  qed
  have 1: "Q (st\<lparr>baseTileHeight := MAX_TILE_SIZE\<rparr>)" by (simp add: Q_def)
  have 2: "Q (for_loop 5 (MAX_TILE_SIZE + 1) 1 (\<lambda>width st.
                 optimizeSize (st\<lparr>baseTileWidth := width\<rparr>) row column 0
                   (shiftsOffset row column 0 (width - 1))) (st\<lparr>baseTileHeight := MAX_TILE_SIZE\<rparr>))"
  proof (rule for_loop_keeps [where Q = Q])
    show "Q (st\<lparr>baseTileHeight := MAX_TILE_SIZE\<rparr>)" by (rule 1)
  next
    fix w :: int and t :: tiles_state
    assume w: "5 \<le> w" "w < MAX_TILE_SIZE + 1" and Qt: "Q t"
    have "1 \<le> w" "w \<le> 64" using w by (simp_all add: MAX_TILE_SIZE_def)
    from outW [OF this]
      optimizeSize_frame [of i "shiftsOffset row column 0 (w - 1)" "t\<lparr>baseTileWidth := w\<rparr>" row column 0]
    have "tileShifts (optimizeSize (t\<lparr>baseTileWidth := w\<rparr>) row column 0 (shiftsOffset row column 0 (w - 1))) ! i
        = tileShifts (t\<lparr>baseTileWidth := w\<rparr>) ! i" by simp
    with Qt show "Q (optimizeSize (t\<lparr>baseTileWidth := w\<rparr>) row column 0 (shiftsOffset row column 0 (w - 1)))"
      by (simp add: Q_def)
  qed
  define s2 where "s2 = for_loop 5 (MAX_TILE_SIZE + 1) 1 (\<lambda>width st.
                 optimizeSize (st\<lparr>baseTileWidth := width\<rparr>) row column 0
                   (shiftsOffset row column 0 (width - 1))) (st\<lparr>baseTileHeight := MAX_TILE_SIZE\<rparr>)"
  have 3: "Q (s2\<lparr>baseTileWidth := MAX_TILE_SIZE\<rparr>)" using 2 by (simp add: Q_def s2_def)
  have 4: "Q (for_loop 7 (MAX_TILE_SIZE + 1) 1 (\<lambda>height st.
                 optimizeSize (st\<lparr>baseTileHeight := height\<rparr>) row column 1
                   (shiftsOffset row column 1 (height - 1))) (s2\<lparr>baseTileWidth := MAX_TILE_SIZE\<rparr>))"
  proof (rule for_loop_keeps [where Q = Q])
    show "Q (s2\<lparr>baseTileWidth := MAX_TILE_SIZE\<rparr>)" by (rule 3)
  next
    fix h :: int and t :: tiles_state
    assume h: "7 \<le> h" "h < MAX_TILE_SIZE + 1" and Qt: "Q t"
    have "1 \<le> h" "h \<le> 64" using h by (simp_all add: MAX_TILE_SIZE_def)
    from outH [OF this]
    have "tileShifts (optimizeSize (t\<lparr>baseTileHeight := h\<rparr>) row column 1 (shiftsOffset row column 1 (h - 1))) ! i
        = tileShifts (t\<lparr>baseTileHeight := h\<rparr>) ! i"
      by (rule optimizeSize_text_vertical_frame [OF t])
    with Qt show "Q (optimizeSize (t\<lparr>baseTileHeight := h\<rparr>) row column 1 (shiftsOffset row column 1 (h - 1)))"
      by (simp add: Q_def)
  qed
  then show ?thesis
    unfolding optimizeTile_def Let_def s2_def [symmetric] Q_def i_def by simp
qed

lemma optimizeTiles_text_frame:
  assumes t: "processingOf row column = CHR ''t''"
    and rc: "0 \<le> row" "row < TILE_ROWS" "0 \<le> column" "column < TILE_COLS"
    and g: "1 \<le> g" "g \<le> 64" and k: "k = 1 \<or> k = 2"
  shows "tileShifts (optimizeTiles st) ! (shiftsOffset row column 1 (g - 1) + k)
           = tileShifts st ! (shiftsOffset row column 1 (g - 1) + k)"
proof -
  define i where "i = shiftsOffset row column 1 (g - 1) + k"
  have io: "i = nat (row * 16 + column) * 384 + 192 + nat (g - 1) * 3 + k"
    unfolding i_def using shiftsOffset_block [of row column 1 "g - 1"] rc g by simp
  have lo: "nat (row * 16 + column) * 384 \<le> i" using io by simp
  have hi: "i < nat (row * 16 + column) * 384 + 384" using io g k by auto
  define Q where "Q = (\<lambda>s :: tiles_state. tileShifts s ! i = tileShifts st ! i)"
  have "Q (for_loop 0 TILE_ROWS 1 (\<lambda>row.
       for_loop 0 TILE_COLS 1 (\<lambda>column st.
         if tileEmpty st row column then st else optimizeTile st row column)) st)"
  proof (rule for_loop_keeps [where Q = Q])
    show "Q st" by (simp add: Q_def)
  next
    fix r :: int and u :: tiles_state
    assume r: "0 \<le> r" "r < TILE_ROWS" and Qt: "Q u"
    show "Q (for_loop 0 TILE_COLS 1 (\<lambda>column st.
         if tileEmpty st r column then st else optimizeTile st r column) u)"
    proof (rule for_loop_keeps [where Q = Q])
      show "Q u" by (rule Qt)
    next
      fix c :: int and v :: tiles_state
      assume c: "0 \<le> c" "c < TILE_COLS" and Qv: "Q v"
      have "tileShifts (optimizeTile v r c) ! i = tileShifts v ! i"
      proof (cases "r = row \<and> c = column")
        case True
        then show ?thesis
          using optimizeTile_text_frame [OF t rc(1) rc(3) g k, of v] by (simp add: i_def)
      next
        case False
        have "c < 16" "column < 16" using c rc by (simp_all add: TILE_COLS_def)
        from optimizeTile_other [OF r(1) c(1) this(1) rc(1) rc(3) this(2) False lo hi, of v]
        show ?thesis by simp
      qed
      with Qv show "Q (if tileEmpty v r c then v else optimizeTile v r c)"
        by (simp add: Q_def)
    qed
  qed
  then show ?thesis unfolding Q_def optimizeTiles_def i_def by simp
qed

lemma verticalStops_text: "verticalStops (CHR ''t'') padding = (0, 28, 86, 186, 232)"
  by (simp add: verticalStops_def Let_def TILE_HEIGHT_def TEXT_BASELINE_def TEXT_X_HEIGHT_def c_div_def)

text \<open>
  C8, as the code has it. The vertical search of a \<open>t\<close> tile has one free parameter
  (\<open>idx < (processing == 't' ? 1 : 3)\<close>), so optimizeTiles writes \<open>shifts[0]\<close> of the
  tile's vertical entries only: \<open>shifts[1]\<close> and \<open>shifts[2]\<close>, zero before, are zero after.
  With such a table the vertical map that prepareTile uses for a \<open>t\<close> tile, at any
  destination size, is: the top stop \<open>(fitHeight - glyphHeight) / 2\<close>; the x-height stop
  on the integer nearest to its proportional position (source row 86 of 232); the baseline
  stop on an integer at least one pixel below it; the bottom stop; and the top-of-ascender
  stop one third of the way from the top stop to the x-height stop, moved by a tenth of
  \<open>shifts[0]\<close>.
\<close>

theorem text_stops_after_optimizer:
  assumes t: "processingOf row column = CHR ''t''"
    and rc: "0 \<le> row" "row < TILE_ROWS" "0 \<le> column" "column < TILE_COLS"
    and g: "1 \<le> glyphHeight"
    and z: "tileShifts st ! (shiftsOffset row column 1 (glyphHeight - 1) + 1) = 0"
           "tileShifts st ! (shiftsOffset row column 1 (glyphHeight - 1) + 2) = 0"
  shows "\<exists>s0 xh bl :: int.
           shiftsFor (tileShifts (optimizeTiles st)) row column 1 glyphHeight = (s0, 0, 0)
         \<and> xh = c_round (real_of_int (c_div (fitHeight - glyphHeight) 2)
                          + real_of_int glyphHeight * 86 / 232)
         \<and> bl = max (xh + 1)
                  (c_round (real_of_int (c_div (fitHeight - glyphHeight) 2)
                            + real_of_int glyphHeight * 186 / 232
                            + (real_of_int xh - (real_of_int (c_div (fitHeight - glyphHeight) 2)
                                                 + real_of_int glyphHeight * 86 / 232))))
         \<and> xh + 1 \<le> bl
         \<and> verticalMaps (CHR ''t'') fitHeight glyphHeight (verticalStops (CHR ''t'') padding)
              (shiftsFor (tileShifts (optimizeTiles st)) row column 1 glyphHeight)
            = (real_of_int (c_div (fitHeight - glyphHeight) 2),
               real_of_int (c_div (fitHeight - glyphHeight) 2)
                 + (real_of_int xh - real_of_int (c_div (fitHeight - glyphHeight) 2)) / 3
                 + real_of_int s0 / 10,
               real_of_int xh,
               real_of_int bl,
               real_of_int (c_div (fitHeight - glyphHeight) 2) + real_of_int glyphHeight)"
proof -
  define top where "top = real_of_int (c_div (fitHeight - glyphHeight) 2)"
  define xh where "xh = c_round (top + real_of_int glyphHeight * 86 / 232)"
  define bl where "bl = max (xh + 1) (c_round (top + real_of_int glyphHeight * 186 / 232
                            + (real_of_int xh - (top + real_of_int glyphHeight * 86 / 232))))"
  have "\<exists>s0. shiftsFor (tileShifts (optimizeTiles st)) row column 1 glyphHeight = (s0, 0, 0)"
  proof (cases "glyphHeight > MAX_TILE_SIZE")
    case True
    then show ?thesis by (simp add: shiftsFor_def)
  next
    case False
    then have g64: "glyphHeight \<le> 64" by (simp add: MAX_TILE_SIZE_def)
    have "tileShifts (optimizeTiles st) ! (shiftsOffset row column 1 (glyphHeight - 1) + 1) = 0"
      "tileShifts (optimizeTiles st) ! (shiftsOffset row column 1 (glyphHeight - 1) + 2) = 0"
      using optimizeTiles_text_frame [OF t rc g g64, of 1 st]
        optimizeTiles_text_frame [OF t rc g g64, of 2 st] z by simp_all
    with False show ?thesis by (simp add: shiftsFor_def Let_def)
  qed
  then obtain s0 where s: "shiftsFor (tileShifts (optimizeTiles st)) row column 1 glyphHeight = (s0, 0, 0)" ..
  have m: "verticalMaps (CHR ''t'') fitHeight glyphHeight (verticalStops (CHR ''t'') padding) (s0, 0, 0)
      = (top, top + (real_of_int xh - top) / 3 + real_of_int s0 / 10, real_of_int xh, real_of_int bl,
         top + real_of_int glyphHeight)"
    unfolding verticalStops_text
    by (simp add: verticalMaps_def verticalMapsBase_def alignText_def addShifts_def Let_def
        top_def xh_def bl_def max_def)
  have "xh + 1 \<le> bl" by (simp add: bl_def)
  with s m show ?thesis
    unfolding top_def xh_def bl_def by (intro exI [of _ s0] exI conjI) (simp_all only: refl)
qed

theorem text_stops_after_optimizer_witness:
  "processingOf 2 1 = CHR ''t''
   \<and> (\<exists>s0. shiftsFor (tileShifts (optimizeTiles whiteAtlasState)) 2 1 1 20 = (s0, 0, 0)
         \<and> verticalMaps (CHR ''t'') 20 20 (verticalStops (CHR ''t'') 0)
              (shiftsFor (tileShifts (optimizeTiles whiteAtlasState)) 2 1 1 20)
            = (0, 7 / 3 + real_of_int s0 / 10, 7, 16, 20))"
proof -
  have t: "processingOf 2 1 = CHR ''t''" by (simp add: processingOf_def TileProcessing_def)
  have z: "tileShifts whiteAtlasState ! (shiftsOffset 2 1 1 (20 - 1) + 1) = 0"
    "tileShifts whiteAtlasState ! (shiftsOffset 2 1 1 (20 - 1) + 2) = 0"
    by (simp_all add: whiteAtlasState_def shiftsOffset_def sizeof_tileShifts_def TILE_COLS_def
        MAX_TILE_SIZE_def)
  from text_stops_after_optimizer [OF t _ _ _ _ _ z, of 20 0]
  show ?thesis
    by (simp add: t TILE_ROWS_def TILE_COLS_def c_round_def c_div_def max_def) 
qed

text \<open>
  C8 as stated fails in its last part when \<open>shifts[0]\<close> is not zero. Tile (2, 1) is a
  \<open>t\<close> tile; at a base tile of 10 by 20 pixels its glyph is 20 pixels high, and with
  \<open>shifts[0] = 3\<close> in its vertical entry the x-height and baseline stops are the integers
  7 and 16, but the top-of-ascender stop used for the downscaling is 79/30, not one third
  of the way (7/3) from the top stop 0 to the x-height stop 7.
\<close>

theorem text_ascender_shift_counterexample:
  "processingOf 2 1 = CHR ''t''
   \<and> glyphSize (CHR ''t'') False (tilePadding textShiftState 2 1)
        (baseTileWidth textShiftState) (baseTileHeight textShiftState) 10 20 = (10, 20, 10, 20)
   \<and> shiftsFor (tileShifts textShiftState) 2 1 1 20 = (3, 0, 0)
   \<and> verticalMaps (CHR ''t'') 20 20 (verticalStops (CHR ''t'') 0) (3, 0, 0)
        = (0, 79 / 30, 7, 16, 20)
   \<and> (79 / 30 :: real) \<noteq> 0 + (7 - 0) / 3"
  by (simp add: processingOf_def TileProcessing_def glyphSize_def textShiftState_def
      shiftsFor_def shiftsOffset_def sizeof_tileShifts_def verticalMaps_def verticalMapsBase_def
      verticalStops_def alignText_def addShifts_def c_round_def c_div_def Let_def
      TILE_HEIGHT_def TILE_WIDTH_def TILE_COLS_def MAX_TILE_SIZE_def TEXT_BASELINE_def
      TEXT_X_HEIGHT_def)

subsection \<open>The shift optimizer on a white atlas\<close>

text \<open>
  On an atlas that is white everywhere every rendered pixel is fully opaque, so the blur
  score of the calibration is 0 for every candidate and the search keeps the first one,
  5 below the middle.
\<close>

lemma accumulateRow_white:
  assumes white: "\<And>x0. 0 \<le> x0 \<Longrightarrow> x0 < TILE_WIDTH \<Longrightarrow> srcPixel pixels row column x0 y0 = 255"
    and inv: "\<forall>p. \<exists>k \<le> m. vals p = of_nat k * whiteSum"
  shows "\<forall>p. \<exists>k \<le> m + 128. accumulateRow pixels row column tw scaledX y0 y1 vals p = of_nat k * whiteSum"
proof -
  define body where "body = (\<lambda>x0 (values :: accumulator).
       let value = (ucast (srcPixel pixels row column x0 y0) :: 64 word);
           i = y1 * tw + scaledX x0
       in values(i := values i + ((value * value) OR 0x100000000)))"
  define P where "P = (\<lambda>(j::int) (v :: accumulator). \<forall>p. \<exists>k \<le> m + nat j. v p = of_nat k * whiteSum)"
  have "P TILE_WIDTH (for_loop 0 TILE_WIDTH 1 body vals)"
  proof (rule for_loop_inv [where P = P])
    show "P 0 vals" using inv by (simp add: P_def)
    show "0 \<le> TILE_WIDTH" by (simp add: TILE_WIDTH_def)
  next
    fix j :: int and v :: accumulator
    assume j: "0 \<le> j" "j < TILE_WIDTH" and Pj: "P j v"
    have b: "body j v = v(y1 * tw + scaledX j := v (y1 * tw + scaledX j) + whiteSum)"
      by (simp add: body_def Let_def white [OF j] whiteSum_def)
    show "P (j + 1) (body j v)"
      unfolding P_def
    proof
      fix p
      from Pj obtain k where k: "k \<le> m + nat j" "v p = of_nat k * whiteSum"
        unfolding P_def by blast
      show "\<exists>k \<le> m + nat (j + 1). body j v p = of_nat k * whiteSum"
      proof (cases "p = y1 * tw + scaledX j")
        case True
        have "body j v p = of_nat (Suc k) * whiteSum"
          unfolding b using True k(2) by (simp add: algebra_simps)
        moreover have "Suc k \<le> m + nat (j + 1)" using k(1) j by simp
        ultimately show ?thesis by blast
      next
        case False
        then have "body j v p = of_nat k * whiteSum" unfolding b using k(2) by simp
        moreover have "k \<le> m + nat (j + 1)" using k(1) j by simp
        ultimately show ?thesis by blast
      qed
    qed
  qed
  then show ?thesis unfolding P_def accumulateRow_def body_def by (simp add: TILE_WIDTH_def)
qed

lemma downscale_white:
  assumes white: "\<And>x0 y0. 0 \<le> x0 \<Longrightarrow> x0 < TILE_WIDTH \<Longrightarrow> 0 \<le> y0 \<Longrightarrow> y0 < TILE_HEIGHT \<Longrightarrow>
        srcPixel pixels row column x0 y0 = 255"
    and ni: "\<And>y0. 0 \<le> y0 \<Longrightarrow> y0 < TILE_HEIGHT \<Longrightarrow>
        \<not> (scaledY y0 \<ge> 2 \<and> (if y0 = 0 then stray else scaledY (y0 - 1)) = scaledY y0 - 2)"
  shows "\<forall>p. \<exists>k \<le> 29696.
           downscale pixels row column tw th scaledX scaledY stray (\<lambda>i. 0) p = of_nat k * whiteSum"
proof -
  define body where "body = (\<lambda>y0 (values :: accumulator).
       let y1 = scaledY y0
       in if y1 < 0 \<or> y1 \<ge> th then values
          else (let values = accumulateRow pixels row column tw scaledX y0 y1 values
                in if y1 \<ge> 2 \<and> (if y0 = 0 then stray else scaledY (y0 - 1)) = y1 - 2
                   then interpolateRow tw y1 values
                   else values))"
  define P where "P = (\<lambda>(n::int) (v :: accumulator). \<forall>p. \<exists>k \<le> 128 * nat n. v p = of_nat k * whiteSum)"
  have "P TILE_HEIGHT (for_loop 0 TILE_HEIGHT 1 body (\<lambda>i. 0))"
  proof (rule for_loop_inv [where P = P])
    show "P 0 (\<lambda>i. 0)" by (simp add: P_def)
    show "0 \<le> TILE_HEIGHT" by (simp add: TILE_HEIGHT_def)
  next
    fix n :: int and v :: accumulator
    assume n: "0 \<le> n" "n < TILE_HEIGHT" and Pn: "P n v"
    have e: "128 * nat (n + 1) = 128 * nat n + 128" using n by (simp add: nat_add_distrib)
    have b: "body n v = (if scaledY n < 0 \<or> scaledY n \<ge> th then v
          else accumulateRow pixels row column tw scaledX n (scaledY n) v)"
    proof -
      have nic: "(scaledY n \<ge> 2 \<and> (if n = 0 then stray else scaledY (n - 1)) = scaledY n - 2) = False"
        using ni [OF n] by simp
      show ?thesis unfolding body_def Let_def nic by simp
    qed
    show "P (n + 1) (body n v)"
    proof (cases "scaledY n < 0 \<or> scaledY n \<ge> th")
      case True
      then have "body n v = v" by (simp add: b)
      moreover have "\<forall>p. \<exists>k \<le> 128 * nat n + 128. v p = of_nat k * whiteSum"
        using Pn unfolding P_def by (meson le_add1 le_trans)
      ultimately show ?thesis unfolding P_def e by simp
    next
      case False
      then have "body n v = accumulateRow pixels row column tw scaledX n (scaledY n) v"
        by (simp add: b)
      moreover have "\<forall>p. \<exists>k \<le> 128 * nat n + 128.
          accumulateRow pixels row column tw scaledX n (scaledY n) v p = of_nat k * whiteSum"
        by (rule accumulateRow_white) (use white n Pn in \<open>simp_all add: P_def\<close>)
      ultimately show ?thesis unfolding P_def e by simp
    qed
  qed
  then show ?thesis unfolding P_def downscale_def body_def by (simp add: TILE_HEIGHT_def)
qed

lemma average_white:
  assumes "k \<le> 29696"
  shows "average (of_nat k * whiteSum) = (if k = 0 then 0 else 65025)"
proof -
  define w :: "64 word" where "w = of_nat k * whiteSum"
  have lt: "k * 4295032321 < 2 ^ 64" using assms by simp
  have u: "unat w = k * 4295032321"
    unfolding w_def whiteSum_def
    using lt by (simp add: unat_word_ariths unat_of_nat take_bit_nat_eq_self_iff)
  have split: "k * 4295032321 = k * 2 ^ 32 + k * 65025" by simp
  have small: "k * 65025 < 2 ^ 32" using assms by simp
  have dm: "(k * B + A) div B = k \<and> (k * B + A) mod B = A" if "A < B" for A B :: nat
    using that by simp
  note dm32 = dm [OF small]
  have hi: "unat (drop_bit 32 w) = k"
  proof -
    have "unat (drop_bit 32 w) = drop_bit 32 (unat w)" by (rule unat_drop_bit_eq)
    also have "\<dots> = (k * 2 ^ 32 + k * 65025) div 2 ^ 32"
      unfolding u drop_bit_eq_div by (simp only: split)
    also have "\<dots> = k" using dm32 by (simp only:)
    finally show ?thesis .
  qed
  have lo: "unat (w AND 0xffffffff) = k * 65025"
  proof -
    have "w AND 0xffffffff = take_bit 32 w"
      by (simp add: take_bit_eq_mask mask_eq_exp_minus_1)
    then have "unat (w AND 0xffffffff) = unat (take_bit 32 w)" by (simp only:)
    also have "\<dots> = take_bit 32 (unat w)" by (rule unsigned_take_bit_eq)
    also have "\<dots> = (k * 2 ^ 32 + k * 65025) mod 2 ^ 32"
      unfolding u take_bit_eq_mod by (simp only: split)
    also have "\<dots> = k * 65025" using dm32 by (simp only:)
    finally show ?thesis .
  qed
  show ?thesis
  proof (cases "k = 0")
    case True
    then show ?thesis by (simp add: average_def)
  next
    case False
    have nz: "drop_bit 32 w \<noteq> 0" using hi False by (metis unat_0)
    have "unat ((w AND 0xffffffff) div drop_bit 32 w) = 65025"
      using False by (simp add: unat_div lo hi)
    then have "(w AND 0xffffffff) div drop_bit 32 w = 65025"
      by (simp add: word_unat_eq_iff)
    with nz False show ?thesis by (simp add: average_def w_def)
  qed
qed



lemma convert_blur_zero:
  assumes "\<And>p. average (vals p) = 0 \<or> average (vals p) = 65025"
  shows "snd (convert surface tw th row column pr opt vals) = 0"
proof -
  have z: "sin (pi / (255 * 255) * real (unat (average (vals p)))) = 0" for p
    using assms [of p] by auto
  have z2: "sin (pi * (unsigned (average (vals p)) :: real) / 65025) = 0" for p
    using z [of p] by (simp add: field_simps)
  show ?thesis
    unfolding convert_def
  proof (rule for_loop_keeps [where Q = "\<lambda>s. snd s = 0"])
    show "snd (surf_pixels surface, 0::real) = 0" by simp
  next
    fix y :: int and t :: "(int \<Rightarrow> 32 word) \<times> real"
    assume t: "snd t = 0"
    show "snd (for_loop 0 tw 1 (\<lambda>x (pixels, blur).
         let value = vals (y * tw + x);
             value = average value;
             blur = (if opt then blur + sin (pi / (255 * 255) * real (unat value)) else blur);
             value = (if isText pr then thinText value else value);
             alpha = opacity value
         in (pixels(pixelIndex surface tw th row column x y := push_bit 24 alpha OR 0xffffff), blur)) t) = 0"
    proof (rule for_loop_keeps [where Q = "\<lambda>s. snd s = 0"])
      show "snd t = 0" by (rule t)
    next
      fix x :: int and u :: "(int \<Rightarrow> 32 word) \<times> real"
      assume "snd u = 0"
      then show "snd (case u of (pixels, blur) \<Rightarrow>
         let value = vals (y * tw + x);
             value = average value;
             blur = (if opt then blur + sin (pi / (255 * 255) * real (unat value)) else blur);
             value = (if isText pr then thinText value else value);
             alpha = opacity value
         in (pixels(pixelIndex surface tw th row column x y := push_bit 24 alpha OR 0xffffff), blur)) = 0"
        by (cases u) (simp add: Let_def z2)
    qed
  qed
qed

lemma segment_uniform:
  assumes "stopA < stopB" "mapA = r * real_of_int stopA" "mapB = r * real_of_int stopB"
  shows "segment mapA mapB stopA stopB y = c_trunc (r * real_of_int y)"
proof -
  have nz: "real_of_int (stopB - stopA) \<noteq> 0" using assms(1) by simp
  have "(mapB - mapA) * real_of_int (y - stopA) / real_of_int (stopB - stopA)
      = r * real_of_int (y - stopA)"
    unfolding assms(2,3) using nz by (simp add: field_simps)
  then have "mapA + (mapB - mapA) * real_of_int (y - stopA) / real_of_int (stopB - stopA)
      = r * real_of_int y"
    unfolding assms(2) by (simp add: algebra_simps)
  then show ?thesis unfolding segment_def by simp
qed

lemma scaledY_stretch_64:
  assumes "0 \<le> y" "y < 232"
  shows "scaled (verticalStops (CHR ''s'') 0)
           (verticalMaps (CHR ''s'') 64 64 (verticalStops (CHR ''s'') 0) (0, 0, 0)) y
         = (8 * y) div 29"
proof -
  have st: "verticalStops (CHR ''s'') 0 = (0, 46, 116, 185, 232)"
    by (simp add: verticalStops_def Let_def TILE_HEIGHT_def c_div_def)
  have mp: "verticalMaps (CHR ''s'') 64 64 (0, 46, 116, 185, 232) (0, 0, 0)
      = (8 / 29 * real_of_int 0, 8 / 29 * real_of_int 46, 8 / 29 * real_of_int 116,
         8 / 29 * real_of_int 185, 8 / 29 * real_of_int 232)"
    by (simp add: verticalMaps_def verticalMapsBase_def alignText_def addShifts_def Let_def c_div_def)
  have tr: "c_trunc (8 / 29 * real_of_int y) = (8 * y) div 29"
  proof -
    have "8 / 29 * real_of_int y = real_of_int (8 * y) / real_of_int 29" by simp
    then have "\<lfloor>8 / 29 * real_of_int y\<rfloor> = (8 * y) div 29"
      by (simp only: floor_divide_of_int_eq)
    then show ?thesis using assms(1) by (simp add: c_trunc_def)
  qed
  have seg: "segment (8 / 29 * real_of_int a) (8 / 29 * real_of_int b) a b y = (8 * y) div 29"
    if "a < b" for a b
    using segment_uniform [OF that refl refl, of "8 / 29" y] tr by simp
  consider "185 \<le> y" | "116 \<le> y \<and> y < 185" | "46 \<le> y \<and> y < 116" | "y < 46"
    by linarith
  then show ?thesis
  proof cases
    case 1
    then show ?thesis unfolding st mp scaled_def prod.case using assms seg [of 185 232] by simp
  next
    case 2
    then show ?thesis unfolding st mp scaled_def prod.case using assms seg [of 116 185] by simp
  next
    case 3
    then show ?thesis unfolding st mp scaled_def prod.case using assms seg [of 46 116] by simp
  next
    case 4
    then show ?thesis unfolding st mp scaled_def prod.case using assms seg [of 0 46] by simp
  qed
qed

lemma no_interpolation_stretch_64:
  assumes "0 \<le> y0" "y0 < TILE_HEIGHT"
  shows "\<not> (scaled (verticalStops (CHR ''s'') 0)
             (verticalMaps (CHR ''s'') 64 64 (verticalStops (CHR ''s'') 0) (0, 0, 0)) y0 \<ge> 2
          \<and> (if y0 = 0 then stray
              else scaled (verticalStops (CHR ''s'') 0)
                     (verticalMaps (CHR ''s'') 64 64 (verticalStops (CHR ''s'') 0) (0, 0, 0)) (y0 - 1))
             = scaled (verticalStops (CHR ''s'') 0)
                 (verticalMaps (CHR ''s'') 64 64 (verticalStops (CHR ''s'') 0) (0, 0, 0)) y0 - 2)"
proof (cases "y0 = 0")
  case True
  then show ?thesis using scaledY_stretch_64 [of 0] by simp
next
  case False
  then have "0 \<le> y0 - 1" "y0 - 1 < 232" "0 \<le> y0" "y0 < 232"
    using assms by (simp_all add: TILE_HEIGHT_def)
  then have "scaled (verticalStops (CHR ''s'') 0)
             (verticalMaps (CHR ''s'') 64 64 (verticalStops (CHR ''s'') 0) (0, 0, 0)) y0 = (8 * y0) div 29"
    and "scaled (verticalStops (CHR ''s'') 0)
             (verticalMaps (CHR ''s'') 64 64 (verticalStops (CHR ''s'') 0) (0, 0, 0)) (y0 - 1)
           = (8 * (y0 - 1)) div 29"
    by (simp_all add: scaledY_stretch_64)
  moreover have "(8 * (y0 - 1)) div 29 \<noteq> (8 * y0) div 29 - 2"
  proof -
    have "(8 * y0 - 29) div 29 \<le> (8 * (y0 - 1)) div 29"
      by (rule zdiv_mono1) simp_all
    moreover have "(8 * y0 - 29) div 29 = (8 * y0) div 29 - 1"
      using div_add_self2 [of 29 "8 * y0 - 29"] by simp
    ultimately show ?thesis by simp
  qed
  ultimately show ?thesis using False by simp
qed


lemma processingOf_16_2: "processingOf 16 2 = CHR ''s''"
  by (simp add: processingOf_def TileProcessing_def)

lemma calibrationBlur_white:
  assumes "whiteReady st shifts"
  shows "calibrationBlur st 16 2 shifts = 0"
proof -
  have a: "TilesPNG st = (\<lambda>i. 0xffffffff)" "\<not> tileEmpty st 16 2" "tilePadding st 16 2 = 0"
    "baseTileHeight st = 64" "shifts ! 99453 = 0" "shifts ! 99454 = 0" "shifts ! 99455 = 0"
    using assms by (simp_all add: whiteReady_def)
  define st' where "st' = st\<lparr>tileShifts := shifts\<rparr>"
  define scaledX where "scaledX = scaled horizontalStops
                   (horizontalMaps (baseTileWidth st) (baseTileWidth st)
                      (shiftsFor shifts 16 2 0 (baseTileWidth st)))"
  have sf: "shiftsFor shifts 16 2 1 64 = (0, 0, 0)"
    by (simp add: shiftsFor_def shiftsOffset_def MAX_TILE_SIZE_def TILE_COLS_def Let_def a)
  have ds: "downscaleTile st' (baseTileWidth st) 64 16 2 True (\<lambda>i. 0)
      = downscale (\<lambda>i. 0xffffffff) 16 2 (baseTileWidth st) 64 scaledX
          (scaled (verticalStops (CHR ''s'') 0)
             (verticalMaps (CHR ''s'') 64 64 (verticalStops (CHR ''s'') 0) (0, 0, 0)))
          (strayY st) (\<lambda>i. 0)"
    by (simp add: downscaleTile_def st'_def processingOf_16_2 glyphSize_def Let_def a sf scaledX_def)
  have w: "\<forall>p. \<exists>k \<le> 29696. downscaleTile st' (baseTileWidth st) 64 16 2 True (\<lambda>i. 0) p
            = of_nat k * whiteSum"
    unfolding ds
    by (rule downscale_white) (simp_all add: srcPixel_def no_interpolation_stretch_64)
  have av: "average (downscaleTile st' (baseTileWidth st) 64 16 2 True (\<lambda>i. 0) p) = 0
       \<or> average (downscaleTile st' (baseTileWidth st) 64 16 2 True (\<lambda>i. 0) p) = 65025" for p
  proof -
    from w obtain k where "k \<le> 29696"
      "downscaleTile st' (baseTileWidth st) 64 16 2 True (\<lambda>i. 0) p = of_nat k * whiteSum" by blast
    then show ?thesis using average_white [of k] by (cases "k = 0") simp_all
  qed
  have pt: "snd (prepareTile st' surface (baseTileWidth st) 64 16 2 True)
      = snd (convert surface (baseTileWidth st) 64 16 2 (CHR ''s'') True
               (downscaleTile st' (baseTileWidth st) 64 16 2 True (\<lambda>i. 0)))" for surface
    by (simp add: prepareTile_def Let_def case_prod_beta processingOf_16_2 st'_def a)
  show ?thesis
    unfolding calibrationBlur_def st'_def [symmetric] a(4) pt
    by (rule convert_blur_zero) (rule av)
qed

lemma searchShift_constant:
  fixes blurOf :: "shift_table \<Rightarrow> real"
  assumes D: "\<And>t c c'. derive ((derive (t[pos := c']))[pos := c]) = derive (t[pos := c])"
    and Z: "\<And>c. blurOf (derive (shifts[pos := word_of_int c])) = 0"
  shows "searchShift blurOf derive pos midShift shifts
           = derive (shifts[pos := word_of_int (midShift - 5)])"
proof -
  have B: "blurOf (derive (shifts[pos := word_of_int (midShift - 5)])) < 10 ^ 20"
    unfolding Z by simp
  from searchShift_minimal [of derive pos blurOf shifts midShift, OF D B]
  obtain best where b: "midShift - 5 \<le> best"
    "searchShift blurOf derive pos midShift shifts = derive (shifts[pos := word_of_int best])"
    "\<forall>c. midShift - 5 \<le> c \<and> c < best \<longrightarrow>
         blurOf (derive (shifts[pos := word_of_int best])) < blurOf (derive (shifts[pos := word_of_int c]))"
    by blast
  have "\<not> midShift - 5 < best"
  proof
    assume "midShift - 5 < best"
    with b(3) have "blurOf (derive (shifts[pos := word_of_int best]))
        < blurOf (derive (shifts[pos := word_of_int (midShift - 5)]))" by blast
    then show False by (simp only: Z less_irrefl)
  qed
  with b(1) have "best = midShift - 5" by simp
  with b(2) show ?thesis by simp
qed

lemma optimizeStep_white:
  assumes r: "whiteReady st (tileShifts st)"
    and idx: "idx = 0 \<or> idx = 1 \<or> idx = 2"
  shows "optimizeStep st 16 2 0 99084 idx
      = st\<lparr>tileShifts := (tileShifts st)[99084 + nat idx :=
                word_of_int (midShiftOf (tileShifts st) 99084 idx - 5)]\<rparr>"
proof -
  have Z: "calibrationBlur st 16 2 ((tileShifts st)[99084 + nat idx := word_of_int c]) = 0" for c
  proof (rule calibrationBlur_white)
    show "whiteReady st ((tileShifts st)[99084 + nat idx := word_of_int c])"
      using r idx by (auto simp add: whiteReady_def)
  qed
  have "searchShift (calibrationBlur st 16 2) (\<lambda>shifts. shifts) (99084 + nat idx)
          (midShiftOf (tileShifts st) 99084 idx) (tileShifts st)
      = (tileShifts st)[99084 + nat idx := word_of_int (midShiftOf (tileShifts st) 99084 idx - 5)]"
    by (rule searchShift_constant) (simp_all add: Z)
  then show ?thesis
    by (simp add: optimizeStep_def Let_def processingOf_16_2 isText_def)
qed


lemma optimizePass_white:
  assumes r: "whiteReady st (tileShifts st)" and len: "99087 \<le> length (tileShifts st)"
  shows "for_loop 0 3 1 (\<lambda>idx st. optimizeStep st 16 2 0 99084 idx) st
      = st\<lparr>tileShifts := (tileShifts st)[99084 := - 5, 99085 := - 5, 99086 := - 10]\<rparr>"
proof -
  have r': "TilesPNG st = (\<lambda>i. 0xffffffff)" "\<not> tileEmpty st 16 2" "tilePadding st 16 2 = 0"
    "baseTileHeight st = 64" "tileShifts st ! 99453 = 0" "tileShifts st ! 99454 = 0"
    "tileShifts st ! 99455 = 0"
    using r by (simp_all add: whiteReady_def)
  define s1 where "s1 = st\<lparr>tileShifts := (tileShifts st)[99084 := - 5]\<rparr>"
  define s2 where "s2 = s1\<lparr>tileShifts := (tileShifts s1)[99085 := - 5]\<rparr>"
  define s3 where "s3 = s2\<lparr>tileShifts := (tileShifts s2)[99086 := - 10]\<rparr>"
  have 1: "optimizeStep st 16 2 0 99084 0 = s1"
    using optimizeStep_white [OF r, of 0] by (simp add: s1_def midShiftOf_def)
  have r1: "whiteReady s1 (tileShifts s1)" using r' by (simp add: whiteReady_def s1_def)
  have 2: "optimizeStep s1 16 2 0 99084 1 = s2"
    using optimizeStep_white [OF r1, of 1] by (simp add: s2_def midShiftOf_def)
  have r2: "whiteReady s2 (tileShifts s2)" using r' by (simp add: whiteReady_def s2_def s1_def)
  have m: "midShiftOf (tileShifts s2) 99084 2 = - 5"
    using len by (simp add: midShiftOf_def s2_def s1_def c_div_def)
  have 3: "optimizeStep s2 16 2 0 99084 2 = s3"
    using optimizeStep_white [OF r2, of 2] by (simp add: s3_def m)
  have "for_loop 0 3 1 (\<lambda>idx st. optimizeStep st 16 2 0 99084 idx) st = s3"
    by (simp add: for_loop.simps 1 2 3)
  then show ?thesis by (simp add: s3_def s2_def s1_def)
qed

lemma optimizeSize_white:
  assumes r: "whiteReady st (tileShifts st)" and len: "99087 \<le> length (tileShifts st)"
  shows "tileShifts (optimizeSize st 16 2 0 99084) ! 99084 = - 5"
proof -
  define up where "up = (\<lambda>s :: tiles_state.
      s\<lparr>tileShifts := (tileShifts s)[99084 := - 5, 99085 := - 5, 99086 := - 10]\<rparr>)"
  have keep: "whiteReady (up s) (tileShifts (up s)) \<and> 99087 \<le> length (tileShifts (up s))"
    if "whiteReady s (tileShifts s)" "99087 \<le> length (tileShifts s)" for s
    using that by (simp add: whiteReady_def up_def)
  have pass: "for_loop 0 3 1 (\<lambda>idx st. optimizeStep st 16 2 0 99084 idx) s = up s"
    if "whiteReady s (tileShifts s)" "99087 \<le> length (tileShifts s)" for s
    using optimizePass_white [OF that] by (simp add: up_def)
  have k1: "whiteReady (up st) (tileShifts (up st))" "99087 \<le> length (tileShifts (up st))"
    using keep [OF r len] by simp_all
  have k2: "whiteReady (up (up st)) (tileShifts (up (up st)))"
    "99087 \<le> length (tileShifts (up (up st)))"
    using keep [OF k1] by simp_all
  define inner where "inner = for_loop 0 3 1 (\<lambda>idx st. optimizeStep st 16 2 0 99084 idx)"
  have "optimizeSize st 16 2 0 99084 = for_loop 0 3 1 (\<lambda>i. inner) st"
    by (simp add: optimizeSize_def Let_def processingOf_16_2 isText_def inner_def)
  also have "\<dots> = inner (inner (inner st))"
    by (simp add: for_loop.simps)
  also have "\<dots> = up (up (up st))"
    using pass [OF r len] pass [OF k1] pass [OF k2] by (simp add: inner_def)
  finally have "optimizeSize st 16 2 0 99084 = up (up (up st))" .
  then show ?thesis using len by (simp add: up_def)
qed


lemma optimizeTile_white:
  assumes w: "TilesPNG st = (\<lambda>i. 0xffffffff)" "\<not> tileEmpty st 16 2" "tilePadding st 16 2 = 0"
      "tileShifts st ! 99453 = 0" "tileShifts st ! 99454 = 0" "tileShifts st ! 99455 = 0"
    and len: "99087 \<le> length (tileShifts st)"
  shows "tileShifts (optimizeTile st 16 2) ! 99084 = - 5"
proof -
  define E where "E = (\<lambda>s :: tiles_state. tileShifts s ! 99084 = (- 5 :: 8 word))"
  define bodyW where "bodyW = (\<lambda>(width::int) st.
                 optimizeSize (st\<lparr>baseTileWidth := width\<rparr>) 16 2 0
                   (shiftsOffset 16 2 0 (width - 1)))"
  define bodyH where "bodyH = (\<lambda>(height::int) st.
                 optimizeSize (st\<lparr>baseTileHeight := height\<rparr>) 16 2 1
                   (shiftsOffset 16 2 1 (height - 1)))"
  define s1 where "s1 = st\<lparr>baseTileHeight := MAX_TILE_SIZE\<rparr>"
  have off: "shiftsOffset 16 2 0 4 = 99084"
    by (simp add: shiftsOffset_def TILE_COLS_def MAX_TILE_SIZE_def)
  have out: "99084 \<noteq> shiftsOffset 16 2 axis (v - 1) \<and> 99084 \<noteq> shiftsOffset 16 2 axis (v - 1) + 1
      \<and> 99084 \<noteq> shiftsOffset 16 2 axis (v - 1) + 2"
    if "axis = 0 \<and> 6 \<le> v \<or> axis = 1 \<and> 7 \<le> v" "v \<le> 64" for axis v
  proof -
    have "shiftsOffset 16 2 axis (v - 1) = nat (16 * 16 + 2) * 384 + nat axis * 192 + nat (v - 1) * 3"
      by (rule shiftsOffset_block) (use that in auto)
    then show ?thesis using that by auto
  qed
  have step: "E (optimizeSize t 16 2 axis (shiftsOffset 16 2 axis (v - 1)))"
    if "E t" "axis = 0 \<and> 6 \<le> v \<or> axis = 1 \<and> 7 \<le> v" "v \<le> 64" for t axis v
    using optimizeSize_frame [of 99084 "shiftsOffset 16 2 axis (v - 1)" t 16 2 axis]
      out [OF that(2,3)] that(1) by (simp add: E_def)
  have r: "whiteReady (s1\<lparr>baseTileWidth := 5\<rparr>) (tileShifts (s1\<lparr>baseTileWidth := 5\<rparr>))"
    using w by (simp add: whiteReady_def s1_def MAX_TILE_SIZE_def)
  have "E (bodyW 5 s1)"
    using optimizeSize_white [OF r] len by (simp add: bodyW_def off E_def s1_def)
  then have "E (for_loop 6 (MAX_TILE_SIZE + 1) 1 bodyW (bodyW 5 s1))"
  proof (rule for_loop_keeps [where Q = E])
    fix v :: int and t :: tiles_state
    assume v: "6 \<le> v" "v < MAX_TILE_SIZE + 1" and Et: "E t"
    have "E (t\<lparr>baseTileWidth := v\<rparr>)" using Et by (simp add: E_def)
    then show "E (bodyW v t)" unfolding bodyW_def
      by (rule step) (use v in \<open>simp_all add: MAX_TILE_SIZE_def\<close>)
  qed
  moreover have "for_loop 5 (MAX_TILE_SIZE + 1) 1 bodyW s1
      = for_loop 6 (MAX_TILE_SIZE + 1) 1 bodyW (bodyW 5 s1)"
    by (subst for_loop.simps) (simp add: MAX_TILE_SIZE_def)
  ultimately have 2: "E (for_loop 5 (MAX_TILE_SIZE + 1) 1 bodyW s1)" by simp
  define s2 where "s2 = for_loop 5 (MAX_TILE_SIZE + 1) 1 bodyW s1"
  have 3: "E (s2\<lparr>baseTileWidth := MAX_TILE_SIZE\<rparr>)" using 2 by (simp add: E_def s2_def)
  have 4: "E (for_loop 7 (MAX_TILE_SIZE + 1) 1 bodyH (s2\<lparr>baseTileWidth := MAX_TILE_SIZE\<rparr>))"
  proof (rule for_loop_keeps [where Q = E])
    show "E (s2\<lparr>baseTileWidth := MAX_TILE_SIZE\<rparr>)" by (rule 3)
  next
    fix h :: int and t :: tiles_state
    assume h: "7 \<le> h" "h < MAX_TILE_SIZE + 1" and Et: "E t"
    have "E (t\<lparr>baseTileHeight := h\<rparr>)" using Et by (simp add: E_def)
    then show "E (bodyH h t)" unfolding bodyH_def
      by (rule step) (use h in \<open>simp_all add: MAX_TILE_SIZE_def\<close>)
  qed
  then show ?thesis
    unfolding optimizeTile_def Let_def bodyW_def [symmetric] bodyH_def [symmetric]
      s1_def [symmetric] s2_def [symmetric] E_def by simp
qed

lemma optimizeTiles_white: "tileShifts (optimizeTiles whiteAtlasState) ! 99084 = - 5"
proof -
  define H where "H = (\<lambda>s :: tiles_state. sameAtlas s whiteAtlasState
      \<and> tileShifts s ! 99453 = 0 \<and> tileShifts s ! 99454 = 0 \<and> tileShifts s ! 99455 = 0)"
  define E where "E = (\<lambda>s :: tiles_state. tileShifts s ! 99084 = (- 5 :: 8 word))"
  define cell where "cell = (\<lambda>(row::int) (column::int) st.
         if tileEmpty st row column then st else optimizeTile st row column)"
  have other: "(H u \<longrightarrow> H (cell r c u)) \<and> (E u \<longrightarrow> E (cell r c u))"
    if "0 \<le> r" "0 \<le> c" "c < 16" "\<not> (r = 16 \<and> c = 2)" for r c u
  proof -
    have f: "tileShifts (optimizeTile u r c) ! i = tileShifts u ! i
         \<and> sameAtlas (optimizeTile u r c) u" if "99072 \<le> i" "i < 99456" for i
      by (rule optimizeTile_other [where row = 16 and column = 2])
         (use that \<open>0 \<le> r\<close> \<open>0 \<le> c\<close> \<open>c < 16\<close> \<open>\<not> (r = 16 \<and> c = 2)\<close> in simp_all)
    show ?thesis
      using f [of 99084] f [of 99453] f [of 99454] f [of 99455]
      by (auto simp add: cell_def H_def E_def intro: sameAtlas_trans)
  qed
  have this_cell: "E (cell 16 2 u)" if "H u" for u
  proof -
    have a: "TilesPNG u = (\<lambda>i. 0xffffffff)" "\<not> tileEmpty u 16 2" "tilePadding u 16 2 = 0"
      "99087 \<le> length (tileShifts u)"
      using that by (simp_all add: H_def sameAtlas_def whiteAtlasState_def sizeof_tileShifts_def)
    have "tileShifts (optimizeTile u 16 2) ! 99084 = - 5"
      by (rule optimizeTile_white) (use a that in \<open>simp_all add: H_def\<close>)
    with a show ?thesis by (simp add: cell_def E_def)
  qed
  define Pc where "Pc = (\<lambda>(c::int) s. if c \<le> 2 then H s else E s)"
  define Pr where "Pr = (\<lambda>(r::int) s. if r \<le> 16 then H s else E s)"
  have H0: "H whiteAtlasState"
    by (simp add: H_def) (simp add: whiteAtlasState_def sizeof_tileShifts_def)
  have "Pr TILE_ROWS (for_loop 0 TILE_ROWS 1 (\<lambda>row. for_loop 0 TILE_COLS 1 (cell row)) whiteAtlasState)"
  proof (rule for_loop_inv [where P = Pr])
    show "Pr 0 whiteAtlasState" using H0 by (simp add: Pr_def)
    show "0 \<le> TILE_ROWS" by (simp add: TILE_ROWS_def)
  next
    fix r :: int and t :: tiles_state
    assume r: "0 \<le> r" "r < TILE_ROWS" and Pt: "Pr r t"
    show "Pr (r + 1) (for_loop 0 TILE_COLS 1 (cell r) t)"
    proof (cases "r = 16")
      case True
      have "Pc TILE_COLS (for_loop 0 TILE_COLS 1 (cell 16) t)"
      proof (rule for_loop_inv [where P = Pc])
        show "Pc 0 t" using Pt True by (simp add: Pc_def Pr_def)
        show "0 \<le> TILE_COLS" by (simp add: TILE_COLS_def)
      next
        fix c :: int and u :: tiles_state
        assume c: "0 \<le> c" "c < TILE_COLS" and Pu: "Pc c u"
        show "Pc (c + 1) (cell 16 c u)"
        proof (cases "c = 2")
          case True
          with Pu this_cell [of u] show ?thesis by (simp add: Pc_def)
        next
          case False
          with Pu other [of 16 c u] c show ?thesis
            by (auto simp add: Pc_def TILE_COLS_def)
        qed
      qed
      with True show ?thesis by (simp add: Pc_def Pr_def TILE_COLS_def)
    next
      case False
      define Q where "Q = (\<lambda>s. if r < 16 then H s else E s)"
      have "Q (for_loop 0 TILE_COLS 1 (cell r) t)"
      proof (rule for_loop_keeps [where Q = Q])
        show "Q t" using Pt False by (auto simp add: Q_def Pr_def)
      next
        fix c :: int and u :: tiles_state
        assume c: "0 \<le> c" "c < TILE_COLS" and Qu: "Q u"
        with other [of r c u] r False show "Q (cell r c u)"
          by (auto simp add: Q_def TILE_COLS_def)
      qed
      with False show ?thesis by (auto simp add: Q_def Pr_def)
    qed
  qed
  then show ?thesis
    by (simp add: optimizeTiles_def cell_def Pr_def E_def TILE_ROWS_def)
qed

lemma whiteAtlas_loaded:
  "isTileEmpty (TilesPNG whiteAtlasState) row column = tileEmpty whiteAtlasState row column
   \<and> getPadding (TilesPNG whiteAtlasState) row column = tilePadding whiteAtlasState row column"
proof -
  have "srcPixel (\<lambda>i. 0xffffffff) row column x y = 255" for x y
    by (simp add: srcPixel_def)
  moreover have "\<exists>x::int. 0 \<le> x \<and> x \<le> 127" "\<exists>y::int. 0 \<le> y \<and> y \<le> 231"
    by (rule exI [of _ 0], simp)+
  ultimately show ?thesis
    by (simp add: whiteAtlasState_def isTileEmpty_def getPadding_def getPadding_from.simps [of _ _ _ 0]
        paddingRowsLit_def list_ex_iff TILE_WIDTH_def TILE_HEIGHT_def)
qed

text \<open>
  C7, as the spec states it, fails. Tile (16, 2) is a stretch tile. On the white atlas it is
  not empty (isTileEmpty and getPadding give the flags of the state), so optimizeTiles
  searches it: \<open>shifts[0]\<close> of its horizontal entry for width 5 starts at 0 and ends at -5.
\<close>

theorem stretch_tile_searched_counterexample:
  "processingOf 16 2 = CHR ''s''
   \<and> isTileEmpty (TilesPNG whiteAtlasState) 16 2 = tileEmpty whiteAtlasState 16 2
   \<and> getPadding (TilesPNG whiteAtlasState) 16 2 = tilePadding whiteAtlasState 16 2
   \<and> tileShifts whiteAtlasState ! shiftsOffset 16 2 0 4 = 0
   \<and> tileShifts (optimizeTiles whiteAtlasState) ! shiftsOffset 16 2 0 4 = - 5"
proof -
  have off: "shiftsOffset 16 2 0 4 = 99084"
    by (simp add: shiftsOffset_def TILE_COLS_def MAX_TILE_SIZE_def)
  have "tileShifts whiteAtlasState ! 99084 = 0"
    by (simp add: whiteAtlasState_def sizeof_tileShifts_def)
  then show ?thesis
    using whiteAtlas_loaded [of 16 2] by (simp add: off processingOf_16_2 optimizeTiles_white)
qed

subsection \<open>A step of the optimizer that increases the blur\<close>










































































































end
